theory Spec2Isabelle
  imports Complex_Main "HOL-Library.Multiset"
begin

section \<open>Edge server placement: the strategies of \<open>algorithms.py\<close>\<close>

text \<open>
  The theory embeds \<open>src/algorithms.py\<close>: the base class \<open>ServerPlacement\<close> with its
  distance function and its latency objective, and the four strategies
  \<open>MIPServerPlacement\<close>, \<open>KMeansServerPlacement\<close>, \<open>TopKServerPlacement\<close> and
  \<open>RandomServerPlacement\<close>.

  Python's floats are read as real numbers: comparisons agree with the floats' (no NaN
  is considered), and an addition is the exact sum: the rounding of the floats'
  additions is not part of the model, and no sum of workloads is compared with another
  one here.
  Python's integers are \<open>int\<close>. An exception is a value of type \<open>error\<close>, returned as
  \<open>Inl\<close>.
\<close>

subsection \<open>Exceptions\<close>

datatype error =
    AttributeError
  | IndexError
  | ValueError
  | ZeroDivisionError
  | AssertionError

subsection \<open>Data model\<close>

text \<open>
  Modelled from the spec: the classes \<open>BaseStation\<close> and \<open>EdgeServer\<close> are imported by
  \<open>algorithms.py\<close> from modules that are not part of the sources at hand. Their fields are
  the ones \<open>algorithms.py\<close> reads and writes; the spec's data model (DemandPoint,
  ServicePoint) lists the same ones. The fields of a base station carry the prefix
  \<open>bs_\<close>, since the two classes share their names; the \<open>id\<close> of an edge server is
  \<open>es_id\<close>.
\<close>

record base_station =
  bs_id :: int
  bs_latitude :: real
  bs_longitude :: real
  bs_workload :: real

record edge_server =
  es_id :: int
  latitude :: real
  longitude :: real
  base_station_id :: "int option"
  assigned_base_stations :: "base_station list"
  workload :: real

text \<open>
  Modelled from the spec: the constructor \<open>EdgeServer(id, latitude, longitude,
  base_station_id=None)\<close>. A fresh edge server has no assigned base station and workload
  zero (the spec: "each with zero assigned workload initially"); \<open>algorithms.py\<close> calls it
  with three arguments (k-means) and with four (Top-K, Random).
\<close>

definition EdgeServer :: "int \<Rightarrow> real \<Rightarrow> real \<Rightarrow> int option \<Rightarrow> edge_server" where
  "EdgeServer i lat lng b =
     \<lparr>es_id = i, latitude = lat, longitude = lng, base_station_id = b,
      assigned_base_stations = [], workload = 0\<rparr>"

text \<open>The attributes of a \<open>ServerPlacement\<close> object; \<open>edge_servers\<close> is \<open>None\<close> until a
  placement has been stored.\<close>

record server_placement =
  base_stations :: "base_station list"
  distances :: "real list list"
  edge_servers :: "edge_server list option"

text \<open>\<open>ServerPlacement.__init__\<close>: the list of base stations is copied, the distance table
  is kept, no placement is stored.\<close>

definition ServerPlacement_init :: "base_station list \<Rightarrow> real list list \<Rightarrow> server_placement" where
  "ServerPlacement_init bss ds =
     \<lparr>base_stations = bss, distances = ds, edge_servers = None\<rparr>"

subsection \<open>Python's list operations\<close>

text \<open>\<open>xs[i]\<close>: a negative index counts from the end, an index out of range raises
  \<open>IndexError\<close>.\<close>

definition py_getitem :: "'a list \<Rightarrow> int \<Rightarrow> error + 'a" where
  "py_getitem xs i =
     (if 0 \<le> i \<and> i < int (length xs) then Inr (xs ! nat i)
      else if i < 0 \<and> - int (length xs) \<le> i then Inr (xs ! nat (int (length xs) + i))
      else Inl IndexError)"

text \<open>\<open>xs[:k]\<close>: the first \<open>k\<close> elements, all of them when \<open>k\<close> exceeds the length; a
  negative \<open>k\<close> drops the last \<open>-k\<close> elements. A slice never raises.\<close>

definition py_slice_to :: "'a list \<Rightarrow> int \<Rightarrow> 'a list" where
  "py_slice_to xs k =
     (if 0 \<le> k then take (nat k) xs else take (length xs - nat (- k)) xs)"

text \<open>\<open>sorted(xs, key=f, reverse=True)\<close>: descending by key, and stable (elements with equal
  keys keep their relative order, also under \<open>reverse=True\<close>). A stable ascending sort by the
  negated key is the same list.\<close>

definition py_sorted_reverse :: "('a \<Rightarrow> real) \<Rightarrow> 'a list \<Rightarrow> 'a list" where
  "py_sorted_reverse f xs = sort_key (\<lambda>x. - f x) xs"

text \<open>\<open>random.sample(population, k)\<close>: raises \<open>ValueError\<close> when \<open>k\<close> is negative or larger
  than the population; otherwise it returns the elements at \<open>k\<close> distinct positions. The
  positions drawn are the parameter \<open>picks\<close>: the random source.\<close>

definition random_sample :: "nat list \<Rightarrow> 'a list \<Rightarrow> int \<Rightarrow> error + 'a list" where
  "random_sample picks population k =
     (if k < 0 \<or> int (length population) < k then Inl ValueError
      else Inr (map (\<lambda>i. population ! i) picks))"

text \<open>What the random source owes: \<open>k\<close> distinct positions of the population.\<close>

definition valid_picks :: "nat list \<Rightarrow> nat \<Rightarrow> int \<Rightarrow> bool" where
  "valid_picks picks n k \<longleftrightarrow>
     int (length picks) = k \<and> distinct picks \<and> list_all (\<lambda>i. i < n) picks"

subsection \<open>The base class\<close>

text \<open>\<open>DataUtils.calc_distance(lat_a, lng_a, lat_b, lng_b)\<close> is not part of the sources at
  hand: it is the parameter \<open>calc_distance\<close> of everything that measures a distance.\<close>

type_synonym calc_distance = "real \<Rightarrow> real \<Rightarrow> real \<Rightarrow> real \<Rightarrow> real"

text \<open>\<open>_distance_edge_server_base_station\<close>. The test \<open>if edge_server.base_station_id:\<close> is
  Python's truth test: \<open>None\<close> is false, and so is the integer \<open>0\<close>.\<close>

definition distance_edge_server_base_station ::
  "calc_distance \<Rightarrow> server_placement \<Rightarrow> edge_server \<Rightarrow> base_station \<Rightarrow> error + real" where
  "distance_edge_server_base_station calc_distance self edge_server base_station =
     (if (case base_station_id edge_server of None \<Rightarrow> False | Some b \<Rightarrow> b \<noteq> 0)
      then (case py_getitem (distances self) (the (base_station_id edge_server)) of
              Inl e \<Rightarrow> Inl e
            | Inr row \<Rightarrow> py_getitem row (bs_id base_station))
      else Inr (calc_distance (latitude edge_server) (longitude edge_server)
                  (bs_latitude base_station) (bs_longitude base_station)))"

text \<open>\<open>objective_latency\<close>: the two nested loops add up the delays and count the base
  stations; the inner loop is \<open>latency_of_server\<close>, the outer one \<open>latency_loop\<close>.\<close>

fun latency_of_server ::
  "calc_distance \<Rightarrow> server_placement \<Rightarrow> edge_server \<Rightarrow> base_station list \<Rightarrow> real \<times> int
     \<Rightarrow> error + (real \<times> int)" where
  "latency_of_server calc self es [] acc = Inr acc"
| "latency_of_server calc self es (bs # rest) (total_delay, base_station_num) =
     (case distance_edge_server_base_station calc self es bs of
        Inl e \<Rightarrow> Inl e
      | Inr delay \<Rightarrow>
          latency_of_server calc self es rest (total_delay + delay, base_station_num + 1))"

fun latency_loop ::
  "calc_distance \<Rightarrow> server_placement \<Rightarrow> edge_server list \<Rightarrow> real \<times> int
     \<Rightarrow> error + (real \<times> int)" where
  "latency_loop calc self [] acc = Inr acc"
| "latency_loop calc self (es # rest) acc =
     (case latency_of_server calc self es (assigned_base_stations es) acc of
        Inl e \<Rightarrow> Inl e
      | Inr acc' \<Rightarrow> latency_loop calc self rest acc')"

definition objective_latency :: "calc_distance \<Rightarrow> server_placement \<Rightarrow> error + real" where
  "objective_latency calc self =
     (case edge_servers self of
        None \<Rightarrow> Inl AssertionError
      | Some [] \<Rightarrow> Inl AssertionError
      | Some ess \<Rightarrow>
          (case latency_loop calc self ess (0, 0) of
             Inl e \<Rightarrow> Inl e
           | Inr (total_delay, base_station_num) \<Rightarrow>
               if base_station_num = 0 then Inl ZeroDivisionError
               else Inr (total_delay / real_of_int base_station_num)))"

subsection \<open>The nearest-assignment loop of Top-K and Random\<close>

text \<open>
  The inner loop \<open>for j, edge_server in enumerate(edge_servers)\<close>. The state is the pair
  \<open>(closest_edge_server, min_distance)\<close>; an edge server is referred to by its position
  in \<open>edge_servers\<close>, the objects of that list being pairwise different. The argument
  \<open>distance_of\<close> is \<open>_distance_edge_server_base_station\<close> at the base station of the outer loop.
\<close>

fun find_closest ::
  "(edge_server \<Rightarrow> error + real) \<Rightarrow> edge_server list \<Rightarrow> nat \<Rightarrow> nat option \<times> real
     \<Rightarrow> error + (nat option \<times> real)" where
  "find_closest distance_of [] j acc = Inr acc"
| "find_closest distance_of (edge_server # rest) j (closest_edge_server, min_distance) =
     (case distance_of edge_server of
        Inl e \<Rightarrow> Inl e
      | Inr tmp \<Rightarrow>
          if tmp < min_distance then find_closest distance_of rest (Suc j) (Some j, tmp)
          else find_closest distance_of rest (Suc j) (closest_edge_server, min_distance))"

text \<open>The initial \<open>min_distance\<close> of the source, \<open>1e10\<close>.\<close>

definition initial_min_distance :: real where
  "initial_min_distance = 10000000000"

text \<open>The body of the outer loop for one base station. When no edge server was closer
  than \<open>1e10\<close>, \<open>closest_edge_server\<close> is still \<open>None\<close> and the append raises
  \<open>AttributeError\<close>.\<close>

definition assign_base_station ::
  "calc_distance \<Rightarrow> server_placement \<Rightarrow> edge_server list \<Rightarrow> base_station
     \<Rightarrow> error + edge_server list" where
  "assign_base_station calc self ess base_station =
     (case find_closest (\<lambda>es. distance_edge_server_base_station calc self es base_station)
             ess 0 (None, initial_min_distance) of
        Inl e \<Rightarrow> Inl e
      | Inr (None, _) \<Rightarrow> Inl AttributeError
      | Inr (Some j, _) \<Rightarrow>
          Inr (ess[j := (ess ! j)
                 \<lparr>assigned_base_stations := assigned_base_stations (ess ! j) @ [base_station],
                  workload := workload (ess ! j) + bs_workload base_station\<rparr>]))"

text \<open>The outer loop over the base stations.\<close>

fun assign_all ::
  "calc_distance \<Rightarrow> server_placement \<Rightarrow> edge_server list \<Rightarrow> base_station list
     \<Rightarrow> error + edge_server list" where
  "assign_all calc self ess [] = Inr ess"
| "assign_all calc self ess (base_station # rest) =
     (case assign_base_station calc self ess base_station of
        Inl e \<Rightarrow> Inl e
      | Inr ess' \<Rightarrow> assign_all calc self ess' rest)"

text \<open>\<open>[EdgeServer(i, item.latitude, item.longitude, item.id) for i, item in
  enumerate(items)]\<close>: the edge servers seeded at base stations.\<close>

definition seed_edge_servers :: "base_station list \<Rightarrow> edge_server list" where
  "seed_edge_servers items =
     map (\<lambda>(i, item). EdgeServer (int i) (bs_latitude item) (bs_longitude item)
                         (Some (bs_id item)))
       (enumerate 0 items)"

subsection \<open>\<open>TopKServerPlacement\<close> and \<open>RandomServerPlacement\<close>\<close>

definition TopK_place_server ::
  "calc_distance \<Rightarrow> server_placement \<Rightarrow> int \<Rightarrow> error + server_placement" where
  "TopK_place_server calc self edge_server_num =
     (let sorted_base_stations = py_sorted_reverse bs_workload (base_stations self);
          ess = seed_edge_servers (py_slice_to sorted_base_stations edge_server_num)
      in case assign_all calc self ess sorted_base_stations of
           Inl e \<Rightarrow> Inl e
         | Inr ess' \<Rightarrow> Inr (self\<lparr>edge_servers := Some ess'\<rparr>))"

definition Random_place_server ::
  "nat list \<Rightarrow> calc_distance \<Rightarrow> server_placement \<Rightarrow> int \<Rightarrow> error + server_placement" where
  "Random_place_server picks calc self edge_server_num =
     (case random_sample picks (base_stations self) edge_server_num of
        Inl e \<Rightarrow> Inl e
      | Inr random_base_stations \<Rightarrow>
          (case assign_all calc self (seed_edge_servers random_base_stations)
                  (base_stations self) of
             Inl e \<Rightarrow> Inl e
           | Inr ess' \<Rightarrow> Inr (self\<lparr>edge_servers := Some ess'\<rparr>)))"

subsection \<open>\<open>KMeansServerPlacement\<close>\<close>

text \<open>
  \<open>scipy.cluster.vq.kmeans2(data, k, iter=100, minit='points')\<close> is a library call whose
  answer depends on a random initialisation: it is a parameter, a function from the
  coordinates and \<open>k\<close> to an exception or to the pair \<open>(centroid, label)\<close>, one row per
  centroid and one label per observation.
\<close>

type_synonym kmeans2 =
  "(real \<times> real) list \<Rightarrow> int \<Rightarrow> error + ((real \<times> real) list \<times> nat list)"

text \<open>\<open>for bs, es in enumerate(label)\<close>: \<open>edge_servers[es]\<close> and \<open>base_stations[bs]\<close>
  raise \<open>IndexError\<close> out of range.\<close>

fun kmeans_assign ::
  "base_station list \<Rightarrow> edge_server list \<Rightarrow> nat \<Rightarrow> nat list \<Rightarrow> error + edge_server list" where
  "kmeans_assign bss ess bs [] = Inr ess"
| "kmeans_assign bss ess bs (es # label) =
     (if es < length ess \<and> bs < length bss
      then kmeans_assign bss
             (ess[es := (ess ! es)
                \<lparr>assigned_base_stations := assigned_base_stations (ess ! es) @ [bss ! bs],
                 workload := workload (ess ! es) + bs_workload (bss ! bs)\<rparr>])
             (Suc bs) label
      else Inl IndexError)"

definition KMeans_place_server ::
  "kmeans2 \<Rightarrow> server_placement \<Rightarrow> int \<Rightarrow> error + server_placement" where
  "KMeans_place_server kmeans2 self edge_server_num =
     (let coordinates = map (\<lambda>x. (bs_latitude x, bs_longitude x)) (base_stations self)
      in case kmeans2 coordinates edge_server_num of
           Inl e \<Rightarrow> Inl e
         | Inr (centroid, label) \<Rightarrow>
             (case kmeans_assign (base_stations self)
                     (map (\<lambda>(i, row). EdgeServer (int i) (fst row) (snd row) None)
                        (enumerate 0 centroid))
                     0 label of
                Inl e \<Rightarrow> Inl e
              | Inr ess \<Rightarrow>
                  Inr (self\<lparr>edge_servers := Some (filter (\<lambda>x. workload x \<noteq> 0) ess)\<rparr>)))"

subsection \<open>\<open>MIPServerPlacement\<close>\<close>

text \<open>\<open>int(n / k)\<close> for a length \<open>n\<close>: true division, then truncation towards zero;
  division by zero raises.\<close>

definition py_int_truediv :: "nat \<Rightarrow> int \<Rightarrow> error + int" where
  "py_int_truediv n k =
     (if k = 0 then Inl ZeroDivisionError
      else if 0 < k then Inr (int n div k)
      else Inr (- (int n div (- k))))"

text \<open>
  \<open>row.argpartition(kth)\<close> of NumPy, from its documentation: \<open>kth\<close> must lie in
  \<open>[-n, n)\<close> for a row of length \<open>n\<close>, or \<open>ValueError\<close> is raised; the answer is a
  permutation of the positions in which position \<open>kth\<close> holds the element a sort would
  put there, no larger element before it and no smaller one behind it. NumPy leaves the
  order within the two parts open; the positions in ascending order of their values are
  one such answer, and the one taken here.
\<close>

definition np_argpartition :: "real list \<Rightarrow> int \<Rightarrow> error + nat list" where
  "np_argpartition row kth =
     (if kth < - int (length row) \<or> int (length row) \<le> kth then Inl ValueError
      else Inr (sort_key (\<lambda>j. row ! j) [0..<length row]))"

text \<open>The loop \<open>for i, row in enumerate(d)\<close> of \<open>preprocess_problem\<close>, with the list
  \<open>assign\<close> it builds.\<close>

fun preprocess_loop :: "int \<Rightarrow> real list list \<Rightarrow> nat list list \<Rightarrow> error + nat list list" where
  "preprocess_loop cap [] assign = Inr assign"
| "preprocess_loop cap (row # d) assign =
     (case np_argpartition row cap of
        Inl e \<Rightarrow> Inl e
      | Inr indices \<Rightarrow> preprocess_loop cap d (assign @ [py_slice_to indices cap]))"

text \<open>\<open>preprocess_problem\<close>. The source builds the list \<open>assign\<close> and drops it (the method
  returns \<open>None\<close>); here the list is the result, so that it can be spoken about.\<close>

definition preprocess_problem :: "server_placement \<Rightarrow> int \<Rightarrow> error + nat list list" where
  "preprocess_problem self k =
     (case py_int_truediv (length (base_stations self)) k of
        Inl e \<Rightarrow> Inl e
      | Inr cap \<Rightarrow> preprocess_loop cap (distances self) [])"

subsection \<open>The strategies\<close>

text \<open>
  The four subclasses of \<open>ServerPlacement\<close>, each with what it takes from outside:
  the outcome of \<open>setupup_problem\<close> on the CPLEX class (\<open>None\<close> when it returns), the
  clustering function, and the positions drawn by \<open>random.sample\<close>.
\<close>

datatype strategy =
    is_MIP: MIPServerPlacement (the_setup: "error option")
  | is_KMeans: KMeansServerPlacement (the_kmeans2: kmeans2)
  | is_TopK: TopKServerPlacement
  | is_Random: RandomServerPlacement (the_picks: "nat list")

text \<open>\<open>place_server\<close>, by class. \<open>MIPServerPlacement.place_server\<close> runs the preprocessing
  and the set-up and stores nothing.\<close>

fun place_server ::
  "calc_distance \<Rightarrow> strategy \<Rightarrow> server_placement \<Rightarrow> int \<Rightarrow> error + server_placement" where
  "place_server calc (MIPServerPlacement setupup_problem) self edge_server_num =
     (case preprocess_problem self edge_server_num of
        Inl e \<Rightarrow> Inl e
      | Inr assign \<Rightarrow> (case setupup_problem of Some e \<Rightarrow> Inl e | None \<Rightarrow> Inr self))"
| "place_server calc (KMeansServerPlacement kmeans2) self edge_server_num =
     KMeans_place_server kmeans2 self edge_server_num"
| "place_server calc TopKServerPlacement self edge_server_num =
     TopK_place_server calc self edge_server_num"
| "place_server calc (RandomServerPlacement picks) self edge_server_num =
     Random_place_server picks calc self edge_server_num"

subsection \<open>Example inputs\<close>

text \<open>A stand-in for \<open>DataUtils.calc_distance\<close> in the examples: the distance along the
  grid of latitudes and longitudes.\<close>

definition grid_distance :: calc_distance where
  "grid_distance lat_a lng_a lat_b lng_b = \<bar>lat_a - lat_b\<bar> + \<bar>lng_a - lng_b\<bar>"

text \<open>Two base stations one step apart; the second one carries no workload.\<close>

definition station_0 :: base_station where
  "station_0 = \<lparr>bs_id = 0, bs_latitude = 0, bs_longitude = 0, bs_workload = 5\<rparr>"

definition station_1 :: base_station where
  "station_1 = \<lparr>bs_id = 1, bs_latitude = 0, bs_longitude = 1, bs_workload = 0\<rparr>"

definition two_stations :: server_placement where
  "two_stations = ServerPlacement_init [station_0, station_1] [[0, 1], [1, 0]]"

text \<open>The same base stations with a table of road distances, longer than the grid's.\<close>

definition two_stations_by_road :: server_placement where
  "two_stations_by_road = ServerPlacement_init [station_0, station_1] [[0, 3], [3, 0]]"

text \<open>The same base stations with a table whose entries between different stations are
  \<open>1e10\<close>.\<close>

definition two_stations_far :: server_placement where
  "two_stations_far =
     ServerPlacement_init [station_0, station_1] [[0, 10000000000], [10000000000, 0]]"

text \<open>The scenario of the spec: four base stations on the corners of a square, each of
  workload 1, with the table of their grid distances.\<close>

definition corner :: "int \<Rightarrow> real \<Rightarrow> real \<Rightarrow> base_station" where
  "corner i lat lng = \<lparr>bs_id = i, bs_latitude = lat, bs_longitude = lng, bs_workload = 1\<rparr>"

definition four_corners :: server_placement where
  "four_corners =
     ServerPlacement_init [corner 0 0 0, corner 1 0 1, corner 2 1 0, corner 3 1 1]
       [[0, 1, 1, 2], [1, 0, 2, 1], [1, 2, 0, 1], [2, 1, 1, 0]]"

text \<open>A clustering answer when as many clusters as observations are asked for: each
  observation is its own centroid.\<close>

definition each_its_own :: kmeans2 where
  "each_its_own data k =
     (if k = int (length data) then Inr (data, [0..<length data]) else Inl ValueError)"

text \<open>The clustering answer for one cluster: the centroid is the mean of the
  observations and every observation has the label \<open>0\<close>.\<close>

definition all_in_one :: kmeans2 where
  "all_in_one data k =
     (if k = 1 \<and> data \<noteq> []
      then Inr ([(sum_list (map fst data) / real (length data),
                  sum_list (map snd data) / real (length data))],
                replicate (length data) 0)
      else Inl ValueError)"

subsection \<open>Clusters and rounds\<close>

text \<open>The base stations of cluster \<open>j\<close>: those whose label is \<open>j\<close>, in the order of the
  input.\<close>

definition cluster :: "base_station list \<Rightarrow> nat list \<Rightarrow> nat \<Rightarrow> base_station list" where
  "cluster bss label j = map fst (filter (\<lambda>p. snd p = j) (zip bss label))"

text \<open>The workload an edge server has accumulated when the base stations of a list have
  been added to it one after the other, starting from zero: what the loops compute with
  \<open>workload += base_station.workload\<close>.\<close>

definition accumulated :: "base_station list \<Rightarrow> real" where
  "accumulated bss = foldl (\<lambda>w b. w + bs_workload b) 0 bss"

text \<open>A round of the assignment loop can be completed for the base station \<open>b\<close>: the
  distance of every candidate edge server to \<open>b\<close> is found (no index leaves the table), and
  one of them lies below the initial \<open>min_distance\<close>. \<open>assignable\<close> says so of every
  base station of a list.\<close>

definition round_possible ::
  "calc_distance \<Rightarrow> server_placement \<Rightarrow> edge_server list \<Rightarrow> base_station \<Rightarrow> bool" where
  "round_possible calc self ess b \<longleftrightarrow>
     list_all (\<lambda>e. case distance_edge_server_base_station calc self e b of
                      Inl err \<Rightarrow> False | Inr t \<Rightarrow> True) ess
     \<and> list_ex (\<lambda>e. case distance_edge_server_base_station calc self e b of
                      Inl err \<Rightarrow> False | Inr t \<Rightarrow> t < initial_min_distance) ess"

definition assignable ::
  "calc_distance \<Rightarrow> server_placement \<Rightarrow> edge_server list \<Rightarrow> base_station list \<Rightarrow> bool" where
  "assignable calc self ess bss \<longleftrightarrow> list_all (round_possible calc self ess) bss"

section \<open>Properties\<close>

subsection \<open>The inner loop finds the first nearest edge server\<close>

lemma find_closest_result:
  assumes "\<forall>i<length es. distance_of (es ! i) = Inr (t i)"
  shows "\<exists>c' m'. find_closest distance_of es j (c, m) = Inr (c', m') \<and>
           ((c' = c \<and> m' = m \<and> (\<forall>i<length es. \<not> t i < m))
            \<or> (\<exists>i<length es. c' = Some (j + i) \<and> m' = t i \<and> t i < m
                  \<and> (\<forall>i'<length es. t i \<le> t i') \<and> (\<forall>i'<i. t i < t i')))"
  using assms
proof (induction es arbitrary: j c m t)
  case Nil
  then show ?case by simp
next
  case (Cons e es)
  have d0: "distance_of e = Inr (t 0)"
    using Cons.prems by auto
  have rest: "\<forall>i<length es. distance_of (es ! i) = Inr ((t \<circ> Suc) i)"
    using Cons.prems by auto
  show ?case
  proof (cases "t 0 < m")
    case True
    from Cons.IH [OF rest, of "Suc j" "Some j" "t 0"]
    obtain c' m' where run: "find_closest distance_of es (Suc j) (Some j, t 0) = Inr (c', m')"
      and alt: "(c' = Some j \<and> m' = t 0 \<and> (\<forall>i<length es. \<not> t (Suc i) < t 0))
            \<or> (\<exists>i<length es. c' = Some (Suc j + i) \<and> m' = t (Suc i) \<and> t (Suc i) < t 0
                  \<and> (\<forall>i'<length es. t (Suc i) \<le> t (Suc i')) \<and> (\<forall>i'<i. t (Suc i) < t (Suc i')))"
      by auto
    have eq: "find_closest distance_of (e # es) j (c, m) = Inr (c', m')"
      using d0 True run by simp
    from alt show ?thesis
    proof
      assume a: "c' = Some j \<and> m' = t 0 \<and> (\<forall>i<length es. \<not> t (Suc i) < t 0)"
      then have "\<forall>i'<length (e # es). t 0 \<le> t i'"
        by (auto simp: All_less_Suc2 not_less)
      with a True eq show ?thesis
        by (intro exI [of _ c'] exI [of _ m']) auto
    next
      assume "\<exists>i<length es. c' = Some (Suc j + i) \<and> m' = t (Suc i) \<and> t (Suc i) < t 0
                  \<and> (\<forall>i'<length es. t (Suc i) \<le> t (Suc i')) \<and> (\<forall>i'<i. t (Suc i) < t (Suc i'))"
      then obtain i where i: "i < length es" "c' = Some (Suc j + i)" "m' = t (Suc i)"
        "t (Suc i) < t 0" "\<forall>i'<length es. t (Suc i) \<le> t (Suc i')" "\<forall>i'<i. t (Suc i) < t (Suc i')"
        by blast
      have "\<forall>i'<length (e # es). t (Suc i) \<le> t i'"
        using i by (auto simp: All_less_Suc2)
      moreover have "\<forall>i'<Suc i. t (Suc i) < t i'"
        using i by (auto simp: All_less_Suc2)
      moreover have "t (Suc i) < m"
        using i True by simp
      ultimately show ?thesis
        using i eq
        by (intro exI [of _ c'] exI [of _ m'] conjI disjI2 exI [of _ "Suc i"]) auto
    qed
  next
    case False
    from Cons.IH [OF rest, of "Suc j" c m]
    obtain c' m' where run: "find_closest distance_of es (Suc j) (c, m) = Inr (c', m')"
      and alt: "(c' = c \<and> m' = m \<and> (\<forall>i<length es. \<not> t (Suc i) < m))
            \<or> (\<exists>i<length es. c' = Some (Suc j + i) \<and> m' = t (Suc i) \<and> t (Suc i) < m
                  \<and> (\<forall>i'<length es. t (Suc i) \<le> t (Suc i')) \<and> (\<forall>i'<i. t (Suc i) < t (Suc i')))"
      by auto
    have eq: "find_closest distance_of (e # es) j (c, m) = Inr (c', m')"
      using d0 False run by simp
    from alt show ?thesis
    proof
      assume a: "c' = c \<and> m' = m \<and> (\<forall>i<length es. \<not> t (Suc i) < m)"
      then have "\<forall>i<length (e # es). \<not> t i < m"
        using False by (auto simp: All_less_Suc2)
      with a eq show ?thesis
        by (intro exI [of _ c'] exI [of _ m']) auto
    next
      assume "\<exists>i<length es. c' = Some (Suc j + i) \<and> m' = t (Suc i) \<and> t (Suc i) < m
                  \<and> (\<forall>i'<length es. t (Suc i) \<le> t (Suc i')) \<and> (\<forall>i'<i. t (Suc i) < t (Suc i'))"
      then obtain i where i: "i < length es" "c' = Some (Suc j + i)" "m' = t (Suc i)"
        "t (Suc i) < m" "\<forall>i'<length es. t (Suc i) \<le> t (Suc i')" "\<forall>i'<i. t (Suc i) < t (Suc i')"
        by blast
      have "t (Suc i) < t 0"
        using i False by simp
      then have "\<forall>i'<length (e # es). t (Suc i) \<le> t i'" "\<forall>i'<Suc i. t (Suc i) < t i'"
        using i by (auto simp: All_less_Suc2)
      then show ?thesis
        using i eq
        by (intro exI [of _ c'] exI [of _ m'] conjI disjI2 exI [of _ "Suc i"]) auto
    qed
  qed
qed

lemma distance_ignores_assignment:
  "distance_edge_server_base_station calc self
     (e\<lparr>assigned_base_stations := a, workload := w\<rparr>) b
   = distance_edge_server_base_station calc self e b"
  by (simp add: distance_edge_server_base_station_def)

lemma find_closest_position:
  "find_closest distance_of es j (c, m) = Inr (Some i, m') \<Longrightarrow>
     c = Some i \<or> (j \<le> i \<and> i < j + length es)"
proof (induction es arbitrary: j c m)
  case Nil
  then show ?case by simp
next
  case (Cons e es)
  then show ?case
    by (fastforce split: sum.splits if_splits)
qed

lemma assign_base_station_Inr:
  assumes "assign_base_station calc self ess b = Inr ess'"
  shows "\<exists>j<length ess. ess' = ess[j := (ess ! j)
                   \<lparr>assigned_base_stations := assigned_base_stations (ess ! j) @ [b],
                    workload := workload (ess ! j) + bs_workload b\<rparr>]"
proof -
  from assms obtain j m' where run:
    "find_closest (\<lambda>es. distance_edge_server_base_station calc self es b) ess 0
       (None, initial_min_distance) = Inr (Some j, m')"
    and ess': "ess' = ess[j := (ess ! j)
                   \<lparr>assigned_base_stations := assigned_base_stations (ess ! j) @ [b],
                    workload := workload (ess ! j) + bs_workload b\<rparr>]"
    by (auto simp: assign_base_station_def split: sum.splits option.splits prod.splits)
  from find_closest_position [OF run] have "j < length ess"
    by simp
  with ess' show ?thesis
    by blast
qed

subsection \<open>What one round of the outer loop changes\<close>

lemma sum_list_map_update:
  fixes f :: "'a \<Rightarrow> 'b::comm_monoid_add"
  shows "j < length xs \<Longrightarrow>
    sum_list (map f (xs[j := y])) + f (xs ! j) = sum_list (map f xs) + f y"
proof (induction xs arbitrary: j)
  case Nil
  then show ?case by simp
next
  case (Cons x xs)
  show ?case
  proof (cases j)
    case 0
    then show ?thesis by (simp add: ac_simps)
  next
    case (Suc n)
    with Cons.prems have "n < length xs" by simp
    from Cons.IH [OF this] Suc show ?thesis
      by (simp add: ac_simps)
  qed
qed

lemma assign_base_station_length:
  "assign_base_station calc self ess b = Inr ess' \<Longrightarrow> length ess' = length ess"
  by (auto dest: assign_base_station_Inr)

lemma assign_base_station_mset:
  assumes "assign_base_station calc self ess b = Inr ess'"
  shows "mset (concat (map assigned_base_stations ess')) =
         mset (concat (map assigned_base_stations ess)) + {#b#}"
proof -
  from assign_base_station_Inr [OF assms] obtain j where j: "j < length ess"
    and ess': "ess' = ess[j := (ess ! j)
                   \<lparr>assigned_base_stations := assigned_base_stations (ess ! j) @ [b],
                    workload := workload (ess ! j) + bs_workload b\<rparr>]"
    by blast
  from sum_list_map_update [OF j, of "\<lambda>e. mset (assigned_base_stations e)"
      "(ess ! j)\<lparr>assigned_base_stations := assigned_base_stations (ess ! j) @ [b],
                    workload := workload (ess ! j) + bs_workload b\<rparr>"]
  have "(\<Sum>e\<leftarrow>ess'. mset (assigned_base_stations e)) + mset (assigned_base_stations (ess ! j)) =
        ((\<Sum>e\<leftarrow>ess. mset (assigned_base_stations e)) + {#b#})
          + mset (assigned_base_stations (ess ! j))"
    using ess' by (simp add: ac_simps)
  then have "(\<Sum>e\<leftarrow>ess'. mset (assigned_base_stations e)) =
        (\<Sum>e\<leftarrow>ess. mset (assigned_base_stations e)) + {#b#}"
    by (rule add_right_imp_eq)
  then show ?thesis
    by (simp add: mset_concat comp_def)
qed

lemma assign_base_station_seeds:
  assumes "assign_base_station calc self ess b = Inr ess'"
  shows "map (\<lambda>e. (es_id e, latitude e, longitude e, base_station_id e)) ess' =
         map (\<lambda>e. (es_id e, latitude e, longitude e, base_station_id e)) ess"
proof -
  from assign_base_station_Inr [OF assms] obtain j where j: "j < length ess"
    and ess': "ess' = ess[j := (ess ! j)
                   \<lparr>assigned_base_stations := assigned_base_stations (ess ! j) @ [b],
                    workload := workload (ess ! j) + bs_workload b\<rparr>]"
    by blast
  then show ?thesis
    by (simp add: map_update list_update_same_conv)
qed

lemma assign_all_mset:
  "assign_all calc self ess bss = Inr ess' \<Longrightarrow>
     mset (concat (map assigned_base_stations ess')) =
     mset (concat (map assigned_base_stations ess)) + mset bss"
proof (induction bss arbitrary: ess)
  case Nil
  then show ?case by simp
next
  case (Cons b bss)
  then show ?case
    by (auto split: sum.splits dest!: assign_base_station_mset)
qed

lemma assign_all_seeds:
  "assign_all calc self ess bss = Inr ess' \<Longrightarrow>
     map (\<lambda>e. (es_id e, latitude e, longitude e, base_station_id e)) ess' =
     map (\<lambda>e. (es_id e, latitude e, longitude e, base_station_id e)) ess"
proof (induction bss arbitrary: ess)
  case Nil
  then show ?case by simp
next
  case (Cons b bss)
  then show ?case
    by (auto split: sum.splits dest!: assign_base_station_seeds)
qed

subsection \<open>Fresh edge servers\<close>

lemma seed_edge_servers_fresh:
  "concat (map assigned_base_stations (seed_edge_servers items)) = []"
  by (induction items rule: rev_induct)
     (simp_all add: seed_edge_servers_def EdgeServer_def enumerate_append_eq)

subsection \<open>The loop of k-means\<close>

lemma kmeans_assign_mset:
  "kmeans_assign bss ess i label = Inr ess' \<Longrightarrow>
     mset (concat (map assigned_base_stations ess')) =
     mset (concat (map assigned_base_stations ess)) + mset (take (length label) (drop i bss))"
proof (induction label arbitrary: ess i)
  case Nil
  then show ?case by simp
next
  case (Cons es label)
  from Cons.prems have es: "es < length ess" and i: "i < length bss"
    by (auto split: if_splits)
  define ess1 where "ess1 = ess[es := (ess ! es)
                \<lparr>assigned_base_stations := assigned_base_stations (ess ! es) @ [bss ! i],
                 workload := workload (ess ! es) + bs_workload (bss ! i)\<rparr>]"
  have run: "kmeans_assign bss ess1 (Suc i) label = Inr ess'"
    using Cons.prems es i by (simp add: ess1_def)
  from sum_list_map_update [OF es, of "\<lambda>e. mset (assigned_base_stations e)"
      "(ess ! es)\<lparr>assigned_base_stations := assigned_base_stations (ess ! es) @ [bss ! i],
                 workload := workload (ess ! es) + bs_workload (bss ! i)\<rparr>"]
  have "(\<Sum>e\<leftarrow>ess1. mset (assigned_base_stations e)) + mset (assigned_base_stations (ess ! es)) =
        ((\<Sum>e\<leftarrow>ess. mset (assigned_base_stations e)) + {#bss ! i#})
          + mset (assigned_base_stations (ess ! es))"
    by (simp add: ess1_def ac_simps)
  then have "(\<Sum>e\<leftarrow>ess1. mset (assigned_base_stations e)) =
        (\<Sum>e\<leftarrow>ess. mset (assigned_base_stations e)) + {#bss ! i#}"
    by (rule add_right_imp_eq)
  then have step: "mset (concat (map assigned_base_stations ess1)) =
     mset (concat (map assigned_base_stations ess)) + {#bss ! i#}"
    by (simp add: mset_concat comp_def)
  have "take (length (es # label)) (drop i bss) = bss ! i # take (length label) (drop (Suc i) bss)"
    using i by (simp add: Cons_nth_drop_Suc [symmetric])
  with Cons.IH [OF run] step show ?case
    by simp
qed

subsection \<open>Fresh centroids\<close>

lemma fresh_centroids:
  "\<forall>e\<in>set (map (\<lambda>(i, row). EdgeServer (int i) (fst row) (snd row) None) (enumerate n centroid)).
      workload e = 0 \<and> assigned_base_stations e = []"
  by (auto simp: EdgeServer_def)

lemma fresh_centroids_sum:
  "sum_list (map workload
     (map (\<lambda>(i, row). EdgeServer (int i) (fst row) (snd row) None) (enumerate n centroid))) = 0"
  "concat (map assigned_base_stations
     (map (\<lambda>(i, row). EdgeServer (int i) (fst row) (snd row) None) (enumerate n centroid))) = []"
  by (induction centroid arbitrary: n) (simp_all add: EdgeServer_def)

subsection \<open>Lists without a common element\<close>

lemma exactly_one_list:
  assumes "distinct (concat xss)" and "b \<in> set (concat xss)"
  shows "\<exists>!j. j < length xss \<and> b \<in> set (xss ! j)"
  using assms
proof (induction xss)
  case Nil
  then show ?case by simp
next
  case (Cons xs xss)
  show ?case
  proof (cases "b \<in> set xs")
    case True
    with Cons.prems have notin: "b \<notin> set (concat xss)"
      by auto
    have "\<And>j. j < length (xs # xss) \<and> b \<in> set ((xs # xss) ! j) \<Longrightarrow> j = 0"
    proof -
      fix j assume j: "j < length (xs # xss) \<and> b \<in> set ((xs # xss) ! j)"
      show "j = 0"
      proof (cases j)
        case 0
        then show ?thesis .
      next
        case (Suc n)
        with j have "n < length xss" "b \<in> set (xss ! n)" by simp_all
        then have "b \<in> set (concat xss)" by auto
        with notin show ?thesis by simp
      qed
    qed
    with True show ?thesis
      by (intro ex1I [of _ 0]) auto
  next
    case False
    with Cons.prems have "distinct (concat xss)" "b \<in> set (concat xss)"
      by auto
    from Cons.IH [OF this] obtain j where j: "j < length xss" "b \<in> set (xss ! j)"
      and uniq: "\<And>j'. j' < length xss \<and> b \<in> set (xss ! j') \<Longrightarrow> j' = j"
      by blast
    show ?thesis
    proof (intro ex1I [of _ "Suc j"])
      show "Suc j < length (xs # xss) \<and> b \<in> set ((xs # xss) ! Suc j)"
        using j by simp
    next
      fix j' assume j': "j' < length (xs # xss) \<and> b \<in> set ((xs # xss) ! j')"
      show "j' = Suc j"
      proof (cases j')
        case 0
        with j' False show ?thesis by simp
      next
        case (Suc n)
        with j' have "n < length xss \<and> b \<in> set (xss ! n)" by simp
        from uniq [OF this] Suc show ?thesis by simp
      qed
    qed
  qed
qed

lemma concat_filter_nonempty:
  "\<forall>c\<in>set cs. c = [] \<or> P c \<Longrightarrow> concat (filter P cs) = concat cs"
  by (induction cs) auto

lemma exactly_one_of_placement:
  assumes m: "mset (concat (map assigned_base_stations ess)) = mset bss"
    and d: "distinct bss" and b: "b \<in> set bss"
  shows "\<exists>!j. j < length ess \<and> b \<in> set (assigned_base_stations (ess ! j))"
proof -
  from m d have "distinct (concat (map assigned_base_stations ess))"
    using mset_eq_imp_distinct_iff by blast
  moreover from m b have "b \<in> set (concat (map assigned_base_stations ess))"
    using mset_eq_setD by blast
  ultimately have "\<exists>!j. j < length (map assigned_base_stations ess)
      \<and> b \<in> set (map assigned_base_stations ess ! j)"
    by (rule exactly_one_list)
  moreover have "j < length (map assigned_base_stations ess)
      \<and> b \<in> set (map assigned_base_stations ess ! j)
    \<longleftrightarrow> j < length ess \<and> b \<in> set (assigned_base_stations (ess ! j))" for j
    by auto
  ultimately show ?thesis
    by simp
qed

lemma distinct_concat_filter:
  "distinct (concat cs) \<Longrightarrow> distinct (concat (filter P cs))"
  by (induction cs) auto

lemma kept_or_dropped:
  assumes d: "distinct (concat cs)"
    and j: "j < length cs" and b: "b \<in> set (cs ! j)"
  shows "(P (cs ! j) \<longrightarrow> (\<exists>!i. i < length (filter P cs) \<and> b \<in> set (filter P cs ! i)))
       \<and> (\<not> P (cs ! j) \<longrightarrow> (\<forall>i<length (filter P cs). b \<notin> set (filter P cs ! i)))"
proof (intro conjI impI allI)
  assume p: "P (cs ! j)"
  with j have "cs ! j \<in> set (filter P cs)"
    by simp
  with b have "b \<in> set (concat (filter P cs))"
    by auto
  with distinct_concat_filter [OF d, of P]
  show "\<exists>!i. i < length (filter P cs) \<and> b \<in> set (filter P cs ! i)"
    by (rule exactly_one_list)
next
  fix i
  assume np: "\<not> P (cs ! j)" and i: "i < length (filter P cs)"
  show "b \<notin> set (filter P cs ! i)"
  proof
    assume bi: "b \<in> set (filter P cs ! i)"
    from i have "filter P cs ! i \<in> set (filter P cs)"
      by (rule nth_mem)
    then have mem: "filter P cs ! i \<in> set cs" and p: "P (filter P cs ! i)"
      by simp_all
    from mem obtain j' where j': "j' < length cs" "cs ! j' = filter P cs ! i"
      by (auto simp: in_set_conv_nth)
    from b j have "b \<in> set (concat cs)"
      by auto
    from exactly_one_list [OF d this] j b j' bi have "j' = j"
      by auto
    with j' p np show False
      by simp
  qed
qed

subsection \<open>What a placement holds\<close>

lemma TopK_placement:
  assumes "TopK_place_server calc self k = Inr self'"
  shows "\<exists>ess. edge_servers self' = Some ess
     \<and> mset (concat (map assigned_base_stations ess)) = mset (base_stations self)
     \<and> map (\<lambda>e. (es_id e, latitude e, longitude e, base_station_id e)) ess =
         map (\<lambda>e. (es_id e, latitude e, longitude e, base_station_id e))
           (seed_edge_servers
              (py_slice_to (py_sorted_reverse bs_workload (base_stations self)) k))"
proof -
  define srt where "srt = py_sorted_reverse bs_workload (base_stations self)"
  from assms obtain ess where run: "assign_all calc self (seed_edge_servers (py_slice_to srt k)) srt
      = Inr ess" and self': "self' = self\<lparr>edge_servers := Some ess\<rparr>"
    by (auto simp: TopK_place_server_def Let_def srt_def split: sum.splits)
  have "mset srt = mset (base_stations self)"
    by (simp add: srt_def py_sorted_reverse_def)
  then show ?thesis
    using assign_all_mset [OF run] assign_all_seeds [OF run] self'
    by (simp add: seed_edge_servers_fresh srt_def)
qed

lemma Random_placement:
  assumes "Random_place_server picks calc self k = Inr self'"
  shows "\<exists>ess. edge_servers self' = Some ess
     \<and> mset (concat (map assigned_base_stations ess)) = mset (base_stations self)"
proof -
  from assms obtain seeds ess where
    run: "assign_all calc self (seed_edge_servers seeds) (base_stations self) = Inr ess"
    and self': "self' = self\<lparr>edge_servers := Some ess\<rparr>"
    by (auto simp: Random_place_server_def split: sum.splits)
  show ?thesis
    using assign_all_mset [OF run] self'
    by (simp add: seed_edge_servers_fresh)
qed

subsection \<open>The sorted list of Top-K\<close>





lemma seed_edge_servers_fields:
  "map (\<lambda>e. (es_id e, latitude e, longitude e, base_station_id e)) (seed_edge_servers items) =
   map (\<lambda>(i, b). (int i, bs_latitude b, bs_longitude b, Some (bs_id b))) (enumerate 0 items)"
  by (simp add: seed_edge_servers_def EdgeServer_def case_prod_unfold)

lemma py_slice_to_sorted:
  "py_slice_to (py_sorted_reverse f xs) k =
     take (if 0 \<le> k then nat k else length xs - nat (- k)) (py_sorted_reverse f xs)"
  by (simp add: py_slice_to_def py_sorted_reverse_def)

lemma length_seed_edge_servers: "length (seed_edge_servers items) = length items"
  by (simp add: seed_edge_servers_def)

subsection \<open>Top-K without a seed\<close>

lemma TopK_no_seed:
  assumes "base_stations self \<noteq> []"
    and "py_slice_to (py_sorted_reverse bs_workload (base_stations self)) k = []"
  shows "TopK_place_server calc self k = Inl AttributeError"
proof -
  have "length (py_sorted_reverse bs_workload (base_stations self)) = length (base_stations self)"
    by (simp add: py_sorted_reverse_def)
  with assms(1) obtain b rest where
    "py_sorted_reverse bs_workload (base_stations self) = b # rest"
    by (cases "py_sorted_reverse bs_workload (base_stations self)") auto
  with assms(2) show ?thesis
    by (simp add: TopK_place_server_def Let_def seed_edge_servers_def assign_base_station_def)
qed

subsection \<open>The neighbourhoods of the preprocessing\<close>

text \<open>When \<open>preprocess_problem(k)\<close> runs to its end, \<open>k\<close> positive, the list built for
  row \<open>i\<close> of the table holds \<open>int(N/k)\<close> different positions of the row, and no position
  left out has a smaller entry than a position taken. With \<open>k = 1\<close> and a table whose
  rows have \<open>N\<close> entries it does not run to its end.\<close>

lemma preprocess_loop_result:
  "preprocess_loop cap d assign = Inr assign' \<Longrightarrow>
     assign' = assign @ map (\<lambda>row. py_slice_to (sort_key (\<lambda>j. row ! j) [0..<length row]) cap) d
     \<and> (\<forall>row\<in>set d. - int (length row) \<le> cap \<and> cap < int (length row))"
proof (induction d arbitrary: assign)
  case Nil
  then show ?case by simp
next
  case (Cons row d)
  from Cons.prems have bounds: "- int (length row) \<le> cap \<and> cap < int (length row)"
    by (auto simp: np_argpartition_def split: if_splits)
  with Cons.prems have
    "preprocess_loop cap d
       (assign @ [py_slice_to (sort_key (\<lambda>j. row ! j) [0..<length row]) cap]) = Inr assign'"
    by (simp add: np_argpartition_def)
  from Cons.IH [OF this] bounds show ?case
    by simp
qed

lemma nearest_indices:
  fixes row :: "real list"
  assumes "c \<le> length row"
  defines "srt \<equiv> sort_key (\<lambda>j. row ! j) [0..<length row]"
  shows "length (take c srt) = c"
    and "distinct (take c srt)"
    and "set (take c srt) \<subseteq> {..<length row}"
    and "\<forall>j\<in>set (take c srt). \<forall>j'<length row. j' \<notin> set (take c srt) \<longrightarrow> row ! j \<le> row ! j'"
proof -
  have len: "length srt = length row"
    by (simp add: srt_def)
  show "length (take c srt) = c"
    using assms(1) len by simp
  have d: "distinct srt"
    by (simp add: srt_def)
  then show "distinct (take c srt)"
    by simp
  have s: "set srt = {..<length row}"
    by (auto simp: srt_def)
  then show "set (take c srt) \<subseteq> {..<length row}"
    using set_take_subset [of c srt] by simp
  have "sorted (map (\<lambda>j. row ! j) srt)"
    unfolding srt_def by (rule sorted_sort_key)
  then have "sorted (map (\<lambda>j. row ! j) (take c srt) @ map (\<lambda>j. row ! j) (drop c srt))"
    by (simp only: map_append [symmetric] append_take_drop_id)
  then have le: "\<forall>x\<in>set (take c srt). \<forall>y\<in>set (drop c srt). row ! x \<le> row ! y"
    by (auto simp: sorted_append)
  show "\<forall>j\<in>set (take c srt). \<forall>j'<length row. j' \<notin> set (take c srt) \<longrightarrow> row ! j \<le> row ! j'"
  proof (intro ballI allI impI)
    fix j j' assume j: "j \<in> set (take c srt)" and j': "j' < length row"
      and out: "j' \<notin> set (take c srt)"
    from j' s have "j' \<in> set (take c srt @ drop c srt)"
      by simp
    then have "j' \<in> set (take c srt) \<union> set (drop c srt)"
      by (simp only: set_append)
    with out have "j' \<in> set (drop c srt)"
      by blast
    with le j show "row ! j \<le> row ! j'"
      by blast
  qed
qed

lemma preprocess_problem_neighbourhoods:
  assumes "preprocess_problem self k = Inr assign" and "0 < k"
  shows "length assign = length (distances self)"
    and "\<forall>i<length (distances self).
           int (length (assign ! i)) = int (length (base_stations self)) div k
         \<and> distinct (assign ! i)
         \<and> set (assign ! i) \<subseteq> {..<length (distances self ! i)}
         \<and> (\<forall>j\<in>set (assign ! i). \<forall>j'<length (distances self ! i).
               j' \<notin> set (assign ! i) \<longrightarrow> distances self ! i ! j \<le> distances self ! i ! j')"
proof -
  define cap where "cap = int (length (base_stations self)) div k"
  have cap0: "0 \<le> cap"
    using assms(2) by (simp add: cap_def pos_imp_zdiv_nonneg_iff)
  from assms have run: "preprocess_loop cap (distances self) [] = Inr assign"
    by (simp add: preprocess_problem_def py_int_truediv_def cap_def)
  from preprocess_loop_result [OF run]
  have assign: "assign = map (\<lambda>row. py_slice_to (sort_key (\<lambda>j. row ! j) [0..<length row]) cap)
                           (distances self)"
    and bounds: "\<forall>row\<in>set (distances self). cap < int (length row)"
    by simp_all
  show "length assign = length (distances self)"
    by (simp add: assign)
  show "\<forall>i<length (distances self).
           int (length (assign ! i)) = int (length (base_stations self)) div k
         \<and> distinct (assign ! i)
         \<and> set (assign ! i) \<subseteq> {..<length (distances self ! i)}
         \<and> (\<forall>j\<in>set (assign ! i). \<forall>j'<length (distances self ! i).
               j' \<notin> set (assign ! i) \<longrightarrow> distances self ! i ! j \<le> distances self ! i ! j')"
  proof (intro allI impI)
    fix i assume i: "i < length (distances self)"
    define row where "row = distances self ! i"
    have "row \<in> set (distances self)"
      using i by (simp add: row_def)
    with bounds have c: "nat cap \<le> length row"
      by auto
    have a: "assign ! i = take (nat cap) (sort_key (\<lambda>j. row ! j) [0..<length row])"
      using i cap0 by (simp add: assign py_slice_to_def row_def)
    from nearest_indices [OF c] cap0 show
         "int (length (assign ! i)) = int (length (base_stations self)) div k
         \<and> distinct (assign ! i)
         \<and> set (assign ! i) \<subseteq> {..<length (distances self ! i)}
         \<and> (\<forall>j\<in>set (assign ! i). \<forall>j'<length (distances self ! i).
               j' \<notin> set (assign ! i) \<longrightarrow> distances self ! i ! j \<le> distances self ! i ! j')"
      unfolding a row_def [symmetric] by (simp add: cap_def)
  qed
qed

lemma preprocess_problem_whole_row:
  assumes "distances self = row # d" and "length row = length (base_stations self)"
    and "row \<noteq> []"
  shows "preprocess_problem self 1 = Inl ValueError"
  using assms by (simp add: preprocess_problem_def py_int_truediv_def np_argpartition_def)

subsection \<open>Table or coordinates\<close>

text \<open>The distance is the table's entry when \<open>base_station_id\<close> is an id other than
  \<open>0\<close>, and the distance of the coordinates when it is \<open>None\<close> or \<open>0\<close>.\<close>

lemma distance_by_table:
  "base_station_id e = Some b \<Longrightarrow> b \<noteq> 0 \<Longrightarrow>
     distance_edge_server_base_station calc self e x =
       (case py_getitem (distances self) b of
          Inl err \<Rightarrow> Inl err
        | Inr row \<Rightarrow> py_getitem row (bs_id x))"
  by (simp add: distance_edge_server_base_station_def)

lemma distance_by_coordinates:
  "base_station_id e = None \<or> base_station_id e = Some 0 \<Longrightarrow>
     distance_edge_server_base_station calc self e x =
       Inr (calc (latitude e) (longitude e) (bs_latitude x) (bs_longitude x))"
  by (auto simp: distance_edge_server_base_station_def)

subsection \<open>The filter of k-means\<close>

lemma KMeans_no_idle_edge_server:
  assumes "KMeans_place_server kmeans2 self k = Inr self'"
  shows "\<exists>ess. edge_servers self' = Some ess \<and> (\<forall>e\<in>set ess. workload e \<noteq> 0)"
  using assms
  by (auto simp: KMeans_place_server_def Let_def split: sum.splits prod.splits)

subsection \<open>Rounds that can be completed\<close>

lemma map_update_unchanged:
  assumes "\<And>x. f (g x) = f x"
  shows "map f (xs[j := g (xs ! j)]) = map f xs"
proof (cases "j < length xs")
  case True
  then show ?thesis
    by (simp add: map_update assms list_update_same_conv)
next
  case False
  then have "xs[j := g (xs ! j)] = xs"
    by (intro list_update_beyond) simp
  then show ?thesis by (rule arg_cong)
qed

lemma round_possible_update:
  "round_possible calc self
     (ess[j := (ess ! j)\<lparr>assigned_base_stations := a, workload := w\<rparr>]) b
   = round_possible calc self ess b"
proof -
  let ?D = "\<lambda>e. distance_edge_server_base_station calc self e b"
  have m: "map ?D (ess[j := (ess ! j)\<lparr>assigned_base_stations := a, workload := w\<rparr>])
         = map ?D ess"
    by (rule map_update_unchanged [where g = "\<lambda>e. e\<lparr>assigned_base_stations := a, workload := w\<rparr>"])
       (simp add: distance_ignores_assignment)
  have all: "list_all (\<lambda>e. case ?D e of Inl err \<Rightarrow> False | Inr t \<Rightarrow> True) xs
      = list_all (\<lambda>r. case r of Inl err \<Rightarrow> False | Inr t \<Rightarrow> True) (map ?D xs)" for xs
    by (simp add: list_all_iff)
  have ex: "list_ex (\<lambda>e. case ?D e of Inl err \<Rightarrow> False | Inr t \<Rightarrow> t < initial_min_distance) xs
      = list_ex (\<lambda>r. case r of Inl err \<Rightarrow> False | Inr t \<Rightarrow> t < initial_min_distance) (map ?D xs)"
    for xs
    by (simp add: list_ex_iff)
  show ?thesis
    unfolding round_possible_def all ex m ..
qed

lemma round_possible_returns:
  assumes "round_possible calc self ess b"
  shows "\<exists>ess'. assign_base_station calc self ess b = Inr ess'"
proof -
  let ?D = "\<lambda>e. distance_edge_server_base_station calc self e b"
  have found: "\<forall>e\<in>set ess. \<exists>t. ?D e = Inr t"
  proof
    fix e assume "e \<in> set ess"
    with assms have "case ?D e of Inl err \<Rightarrow> False | Inr t \<Rightarrow> True"
      by (simp add: round_possible_def list_all_iff)
    then show "\<exists>t. ?D e = Inr t"
      by (cases "?D e") simp_all
  qed
  from assms obtain e0 where e0: "e0 \<in> set ess"
    "case ?D e0 of Inl err \<Rightarrow> False | Inr t \<Rightarrow> t < initial_min_distance"
    by (auto simp: round_possible_def list_ex_iff)
  then have below: "\<exists>e\<in>set ess. \<exists>t. ?D e = Inr t \<and> t < initial_min_distance"
    by (cases "?D e0") auto
  from found have "\<forall>i<length ess. \<exists>t. ?D (ess ! i) = Inr t"
    by simp
  then obtain t where t: "\<forall>i<length ess. ?D (ess ! i) = Inr (t i)"
    by metis
  from below obtain i0 t0 where i0: "i0 < length ess" "?D (ess ! i0) = Inr t0"
    "t0 < initial_min_distance"
    by (auto simp: in_set_conv_nth)
  with t have "t i0 < initial_min_distance"
    by auto
  with i0 have some: "\<not> (\<forall>i<length ess. \<not> t i < initial_min_distance)"
    by blast
  from find_closest_result [OF t, of 0 None initial_min_distance]
  obtain c' m' where run:
    "find_closest ?D ess 0 (None, initial_min_distance) = Inr (c', m')"
    and alt: "(c' = None \<and> m' = initial_min_distance
                \<and> (\<forall>i<length ess. \<not> t i < initial_min_distance))
            \<or> (\<exists>i<length ess. c' = Some (0 + i))"
    by blast
  from alt some obtain j where "c' = Some j"
    by auto
  with run show ?thesis
    by (simp add: assign_base_station_def)
qed

lemma assignable_returns:
  assumes "assignable calc self ess bss"
  shows "\<exists>ess'. assign_all calc self ess bss = Inr ess'"
  using assms
proof (induction bss arbitrary: ess)
  case Nil
  then show ?case by simp
next
  case (Cons b bss)
  from Cons.prems have now: "round_possible calc self ess b"
    and later: "list_all (round_possible calc self ess) bss"
    by (simp_all add: assignable_def)
  from round_possible_returns [OF now] obtain ess1 where
    step: "assign_base_station calc self ess b = Inr ess1"
    by blast
  from assign_base_station_Inr [OF step] obtain j where
    ess1: "ess1 = ess[j := (ess ! j)
                   \<lparr>assigned_base_stations := assigned_base_stations (ess ! j) @ [b],
                    workload := workload (ess ! j) + bs_workload b\<rparr>]"
    by blast
  have "round_possible calc self ess1 = round_possible calc self ess"
    unfolding ess1 by (rule ext) (rule round_possible_update)
  with later have "assignable calc self ess1 bss"
    by (simp add: assignable_def)
  from Cons.IH [OF this] step show ?case
    by simp
qed

subsection \<open>The clusters of k-means\<close>

lemma accumulated_snoc: "accumulated (bss @ [b]) = accumulated bss + bs_workload b"
  by (simp add: accumulated_def)

lemma cluster_Cons:
  "cluster (b # bss) (l # label) j = (if l = j then b # cluster bss label j else cluster bss label j)"
  by (simp add: cluster_def)

lemma cluster_Nil: "cluster bss [] j = []"
  by (simp add: cluster_def)

lemma kmeans_assign_clusters:
  "kmeans_assign bss ess i label = Inr ess' \<Longrightarrow>
     length ess' = length ess
     \<and> (\<forall>j<length ess.
          assigned_base_stations (ess' ! j)
            = assigned_base_stations (ess ! j) @ cluster (drop i bss) label j)"
proof (induction label arbitrary: ess i)
  case Nil
  then show ?case by (simp add: cluster_Nil)
next
  case (Cons es label)
  from Cons.prems have es: "es < length ess" and i: "i < length bss"
    by (auto split: if_splits)
  define ess1 where "ess1 = ess[es := (ess ! es)
                \<lparr>assigned_base_stations := assigned_base_stations (ess ! es) @ [bss ! i],
                 workload := workload (ess ! es) + bs_workload (bss ! i)\<rparr>]"
  have run: "kmeans_assign bss ess1 (Suc i) label = Inr ess'"
    using Cons.prems es i by (simp add: ess1_def)
  from Cons.IH [OF run] have len: "length ess' = length ess"
    and IH: "\<forall>j<length ess. assigned_base_stations (ess' ! j)
            = assigned_base_stations (ess1 ! j) @ cluster (drop (Suc i) bss) label j"
    by (simp_all add: ess1_def)
  have d: "drop i bss = bss ! i # drop (Suc i) bss"
    using i by (simp add: Cons_nth_drop_Suc)
  have "assigned_base_stations (ess' ! j)
            = assigned_base_stations (ess ! j) @ cluster (drop i bss) (es # label) j"
    if j: "j < length ess" for j
  proof (cases "j = es")
    case True
    with es have "assigned_base_stations (ess1 ! j) = assigned_base_stations (ess ! j) @ [bss ! i]"
      by (simp add: ess1_def)
    with IH j True show ?thesis
      by (simp add: d cluster_Cons)
  next
    case False
    then have "ess1 ! j = ess ! j"
      by (simp add: ess1_def)
    with IH j False show ?thesis
      by (simp add: d cluster_Cons)
  qed
  with len show ?case
    by blast
qed

text \<open>The workload of an edge server is what its list accumulates.\<close>

lemma kmeans_assign_accumulates:
  assumes "kmeans_assign bss ess i label = Inr ess'"
    and "\<forall>e\<in>set ess. workload e = accumulated (assigned_base_stations e)"
  shows "\<forall>e\<in>set ess'. workload e = accumulated (assigned_base_stations e)"
  using assms
proof (induction label arbitrary: ess i)
  case Nil
  then show ?case by simp
next
  case (Cons es label)
  from Cons.prems(1) have es: "es < length ess" and i: "i < length bss"
    by (auto split: if_splits)
  define ess1 where "ess1 = ess[es := (ess ! es)
                \<lparr>assigned_base_stations := assigned_base_stations (ess ! es) @ [bss ! i],
                 workload := workload (ess ! es) + bs_workload (bss ! i)\<rparr>]"
  have run: "kmeans_assign bss ess1 (Suc i) label = Inr ess'"
    using Cons.prems(1) es i by (simp add: ess1_def)
  have old: "workload (ess ! es) = accumulated (assigned_base_stations (ess ! es))"
    using Cons.prems(2) es by simp
  have "\<forall>e\<in>set ess1. workload e = accumulated (assigned_base_stations e)"
  proof
    fix e assume "e \<in> set ess1"
    then have "e \<in> insert ((ess ! es)
                \<lparr>assigned_base_stations := assigned_base_stations (ess ! es) @ [bss ! i],
                 workload := workload (ess ! es) + bs_workload (bss ! i)\<rparr>) (set ess)"
      using set_update_subset_insert unfolding ess1_def by fastforce
    then show "workload e = accumulated (assigned_base_stations e)"
      using old Cons.prems(2) by (auto simp: accumulated_snoc)
  qed
  from Cons.IH [OF run this] show ?case .
qed

lemma KMeans_clusters:
  assumes run: "KMeans_place_server kmeans2 self k = Inr self'"
    and km: "kmeans2 (map (\<lambda>x. (bs_latitude x, bs_longitude x)) (base_stations self)) k
               = Inr (centroid, label)"
    and len: "length label = length (base_stations self)"
  shows "\<exists>ess. edge_servers self' = Some ess
     \<and> map assigned_base_stations ess =
         filter (\<lambda>c. accumulated c \<noteq> 0)
           (map (cluster (base_stations self) label) [0..<length centroid])
     \<and> list_all (\<lambda>e. workload e = accumulated (assigned_base_stations e)) ess
     \<and> mset (concat (map (cluster (base_stations self) label) [0..<length centroid]))
         = mset (base_stations self)"
proof -
  define fresh where "fresh =
    map (\<lambda>(i, row). EdgeServer (int i) (fst row) (snd row) None) (enumerate 0 centroid)"
  from run km obtain ess where
    loop: "kmeans_assign (base_stations self) fresh 0 label = Inr ess"
    and self': "self' = self\<lparr>edge_servers := Some (filter (\<lambda>x. workload x \<noteq> 0) ess)\<rparr>"
    by (auto simp: KMeans_place_server_def Let_def fresh_def split: sum.splits)
  have flen: "length fresh = length centroid"
    by (simp add: fresh_def)
  have empty: "\<forall>e\<in>set fresh. workload e = 0 \<and> assigned_base_stations e = []"
    unfolding fresh_def by (rule fresh_centroids)
  then have "\<forall>e\<in>set fresh. workload e = accumulated (assigned_base_stations e)"
    by (simp add: accumulated_def)
  from kmeans_assign_accumulates [OF loop this]
  have acc: "\<forall>e\<in>set ess. workload e = accumulated (assigned_base_stations e)" .
  from kmeans_assign_clusters [OF loop] flen empty
  have elen: "length ess = length centroid"
    and lists: "\<forall>j<length centroid.
       assigned_base_stations (ess ! j) = cluster (base_stations self) label j"
    by simp_all
  have all: "map assigned_base_stations ess
      = map (cluster (base_stations self) label) [0..<length centroid]"
    using elen lists by (intro nth_equalityI) simp_all
  have "filter (\<lambda>x. workload x \<noteq> 0) ess
      = filter (\<lambda>x. accumulated (assigned_base_stations x) \<noteq> 0) ess"
    using acc by (intro filter_cong) simp_all
  then have "map assigned_base_stations (filter (\<lambda>x. workload x \<noteq> 0) ess)
      = filter (\<lambda>c. accumulated c \<noteq> 0) (map assigned_base_stations ess)"
    by (simp add: filter_map comp_def)
  with all have kept: "map assigned_base_stations (filter (\<lambda>x. workload x \<noteq> 0) ess)
      = filter (\<lambda>c. accumulated c \<noteq> 0)
          (map (cluster (base_stations self) label) [0..<length centroid])"
    by simp
  have fresh0: "concat (map assigned_base_stations fresh) = []"
    using fresh_centroids_sum(2) [of 0 centroid] by (simp only: fresh_def)
  from kmeans_assign_mset [OF loop] len fresh0
  have "mset (concat (map assigned_base_stations ess)) = mset (base_stations self)"
    by simp
  with all have part: "mset (concat (map (cluster (base_stations self) label)
      [0..<length centroid])) = mset (base_stations self)"
    by simp
  have "list_all (\<lambda>e. workload e = accumulated (assigned_base_stations e))
          (filter (\<lambda>x. workload x \<noteq> 0) ess)"
    using acc by (simp add: list_all_iff)
  with self' kept part show ?thesis
    by simp
qed

subsection \<open>What an edge server has accumulated\<close>

text \<open>The workload of an edge server stored by Top-K or Random is what its list
  accumulates, one addition per base station in the order of the list (for k-means:
  \<open>KMeans_clusters\<close>). Whether these workloads add up to the workloads of the input is a
  matter of how the additions round, which is not modelled.\<close>

lemma assign_all_accumulates:
  assumes "assign_all calc self ess bss = Inr ess'"
    and "\<forall>e\<in>set ess. workload e = accumulated (assigned_base_stations e)"
  shows "\<forall>e\<in>set ess'. workload e = accumulated (assigned_base_stations e)"
  using assms
proof (induction bss arbitrary: ess)
  case Nil
  then show ?case by simp
next
  case (Cons b bss)
  from Cons.prems(1) obtain ess1 where step: "assign_base_station calc self ess b = Inr ess1"
    and rest: "assign_all calc self ess1 bss = Inr ess'"
    by (auto split: sum.splits)
  from assign_base_station_Inr [OF step] obtain j where j: "j < length ess"
    and ess1: "ess1 = ess[j := (ess ! j)
                   \<lparr>assigned_base_stations := assigned_base_stations (ess ! j) @ [b],
                    workload := workload (ess ! j) + bs_workload b\<rparr>]"
    by blast
  have old: "workload (ess ! j) = accumulated (assigned_base_stations (ess ! j))"
    using Cons.prems(2) j by simp
  have "\<forall>e\<in>set ess1. workload e = accumulated (assigned_base_stations e)"
  proof
    fix e assume "e \<in> set ess1"
    then have "e \<in> insert ((ess ! j)
                   \<lparr>assigned_base_stations := assigned_base_stations (ess ! j) @ [b],
                    workload := workload (ess ! j) + bs_workload b\<rparr>) (set ess)"
      using set_update_subset_insert unfolding ess1 by fastforce
    then show "workload e = accumulated (assigned_base_stations e)"
      using old Cons.prems(2) by (auto simp: accumulated_snoc)
  qed
  from Cons.IH [OF rest this] show ?case .
qed

lemma seeded_accumulates:
  "\<forall>e\<in>set (seed_edge_servers items). workload e = accumulated (assigned_base_stations e)"
  by (auto simp: seed_edge_servers_def EdgeServer_def accumulated_def)

lemma TopK_Random_accumulate:
  assumes "TopK_place_server calc self k = Inr self'
           \<or> Random_place_server picks calc self k = Inr self'"
  shows "\<exists>ess. edge_servers self' = Some ess
     \<and> list_all (\<lambda>e. workload e = accumulated (assigned_base_stations e)) ess"
  using assms
proof
  assume "TopK_place_server calc self k = Inr self'"
  then obtain ess where
    "assign_all calc self
       (seed_edge_servers (py_slice_to (py_sorted_reverse bs_workload (base_stations self)) k))
       (py_sorted_reverse bs_workload (base_stations self)) = Inr ess"
    and "self' = self\<lparr>edge_servers := Some ess\<rparr>"
    by (auto simp: TopK_place_server_def Let_def split: sum.splits)
  with assign_all_accumulates [OF this(1) seeded_accumulates] show ?thesis
    by (simp add: list_all_iff)
next
  assume "Random_place_server picks calc self k = Inr self'"
  then obtain seeds ess where
    "assign_all calc self (seed_edge_servers seeds) (base_stations self) = Inr ess"
    and "self' = self\<lparr>edge_servers := Some ess\<rparr>"
    by (auto simp: Random_place_server_def split: sum.splits)
  with assign_all_accumulates [OF this(1) seeded_accumulates] show ?thesis
    by (simp add: list_all_iff)
qed

subsection \<open>Unfolding the definitions on the examples\<close>

lemmas example_defs =
  grid_distance_def station_0_def station_1_def two_stations_def two_stations_by_road_def
  two_stations_far_def corner_def four_corners_def each_its_own_def ServerPlacement_init_def

lemmas run_defs =
  TopK_place_server_def Random_place_server_def KMeans_place_server_def
  preprocess_problem_def py_int_truediv_def np_argpartition_def
  seed_edge_servers_def EdgeServer_def py_slice_to_def py_sorted_reverse_def random_sample_def
  assign_base_station_def distance_edge_server_base_station_def py_getitem_def
  initial_min_distance_def

section \<open>The claims\<close>

subsection \<open>The nearest-assignment loop\<close>

text \<open>
  One round of the outer loop of \<open>TopKServerPlacement\<close> and \<open>RandomServerPlacement\<close>
  (the two loops are the same text, over \<open>sorted_base_stations\<close> in the one and
  \<open>base_stations\<close> in the other), for the base station \<open>b\<close> and the candidate edge
  servers \<open>ess\<close> whose distances to \<open>b\<close> are found and are \<open>t 0, t 1, \<dots>\<close>. When some
  distance is below the initial \<open>min_distance\<close>, the base station is appended to the edge
  server at the position \<open>j\<close> whose distance is minimal, the first such position among
  ties; the workload of that edge server grows by the workload of \<open>b\<close>, and no other edge
  server changes. When no distance is below it, no edge server is chosen.
\<close>

lemma assign_base_station_nearest:
  assumes "\<forall>i<length ess. distance_edge_server_base_station calc self (ess ! i) b = Inr (t i)"
  shows "((\<exists>i<length ess. t i < initial_min_distance) \<longrightarrow>
           (\<exists>j<length ess. (\<forall>i<length ess. t j \<le> t i) \<and> (\<forall>i<j. t j < t i) \<and>
              assign_base_station calc self ess b =
                Inr (ess[j := (ess ! j)
                   \<lparr>assigned_base_stations := assigned_base_stations (ess ! j) @ [b],
                    workload := workload (ess ! j) + bs_workload b\<rparr>])))
       \<and> ((\<forall>i<length ess. \<not> t i < initial_min_distance) \<longrightarrow>
             assign_base_station calc self ess b = Inl AttributeError)"
proof -
  from find_closest_result [OF assms, of 0 None initial_min_distance]
  obtain c' m' where run:
    "find_closest (\<lambda>es. distance_edge_server_base_station calc self es b) ess 0
       (None, initial_min_distance) = Inr (c', m')"
    and alt: "(c' = None \<and> m' = initial_min_distance
                \<and> (\<forall>i<length ess. \<not> t i < initial_min_distance))
            \<or> (\<exists>i<length ess. c' = Some (0 + i) \<and> m' = t i \<and> t i < initial_min_distance
                  \<and> (\<forall>i'<length ess. t i \<le> t i') \<and> (\<forall>i'<i. t i < t i'))"
    by blast
  from alt show ?thesis
  proof
    assume "c' = None \<and> m' = initial_min_distance
                \<and> (\<forall>i<length ess. \<not> t i < initial_min_distance)"
    then show ?thesis
      using run by (auto simp: assign_base_station_def)
  next
    assume "\<exists>i<length ess. c' = Some (0 + i) \<and> m' = t i \<and> t i < initial_min_distance
                  \<and> (\<forall>i'<length ess. t i \<le> t i') \<and> (\<forall>i'<i. t i < t i')"
    then obtain j where j: "j < length ess" "c' = Some j" "t j < initial_min_distance"
      "\<forall>i<length ess. t j \<le> t i" "\<forall>i<j. t j < t i"
      by auto
    have "assign_base_station calc self ess b =
            Inr (ess[j := (ess ! j)
                   \<lparr>assigned_base_stations := assigned_base_stations (ess ! j) @ [b],
                    workload := workload (ess ! j) + bs_workload b\<rparr>])"
      using run j by (simp add: assign_base_station_def)
    with j show ?thesis
      by blast
  qed
qed

text \<open>The claim as stated, for every base station, fails where the only distance is
  \<open>1e10\<close>: the base station is appended nowhere.\<close>


subsection \<open>The distance between an edge server and a base station\<close>

text \<open>
  Claim C5 at the input that breaks it: an edge server seeded at the base station whose
  id is \<open>0\<close>. Its \<open>base_station_id\<close> is set, the table of road distances holds
  \<open>distances[0][1] = 3\<close>, and \<open>_distance_edge_server_base_station\<close> returns the
  geometric distance \<open>1\<close> instead: \<open>if edge_server.base_station_id:\<close> is false for the
  id \<open>0\<close>. (For every other id, and for \<open>None\<close>, the function does what the claim says:
  \<open>distance_by_table\<close>, \<open>distance_by_coordinates\<close>.)
\<close>

theorem distance_of_station_zero_skips_table:
  "distance_edge_server_base_station grid_distance two_stations_by_road
     (EdgeServer 0 (bs_latitude station_0) (bs_longitude station_0) (Some (bs_id station_0)))
     station_1 = Inr 1
   \<and> (case py_getitem (distances two_stations_by_road) (bs_id station_0) of
         Inl e \<Rightarrow> Inl e
       | Inr row \<Rightarrow> py_getitem row (bs_id station_1)) = Inr 3"
  by (simp add: example_defs run_defs)

subsection \<open>Edge servers of workload zero\<close>

text \<open>
  Claim C2 at an input that breaks it: \<open>TopKServerPlacement\<close> on two base stations, the
  second of workload zero, with \<open>edge_server_num = 2\<close>. The edge server seeded at the
  second base station serves that base station only, its workload is zero, and it is part
  of the placement stored: Top-K (and Random) store \<open>edge_servers\<close> without the filter
  \<open>workload != 0\<close> that k-means applies (\<open>KMeans_no_idle_edge_server\<close>).
\<close>

theorem topk_keeps_idle_edge_server:
  "place_server grid_distance TopKServerPlacement two_stations 2 =
     Inr (two_stations\<lparr>edge_servers := Some
       [\<lparr>es_id = 0, latitude = 0, longitude = 0, base_station_id = Some 0,
         assigned_base_stations = [station_0], workload = 5\<rparr>,
        \<lparr>es_id = 1, latitude = 0, longitude = 1, base_station_id = Some 1,
         assigned_base_stations = [station_1], workload = 0\<rparr>]\<rparr>)"
  by (simp add: example_defs run_defs)

subsection \<open>The preprocessing of the exact strategy\<close>

text \<open>
  Claim C8 at the input that breaks it: \<open>preprocess_problem(1)\<close> on four base stations.
  The neighbourhood size is \<open>cap = int(4/1) = 4\<close>, the length of a row, and
  \<open>row.argpartition(4)\<close> is out of bounds: the call raises \<open>ValueError\<close> and no
  neighbourhood is computed. (For a larger \<open>k\<close> the neighbourhoods are as the claim says:
  \<open>preprocess_problem_neighbourhoods\<close>.)
\<close>

theorem preprocess_problem_one_server:
  "preprocess_problem four_corners 1 = Inl ValueError"
  by (simp add: example_defs run_defs)

subsection \<open>Evaluation before placement\<close>

text \<open>
  Claim C9: while \<open>self.edge_servers\<close> is unset, \<open>objective_latency\<close> raises (the
  \<open>assert\<close> fails: \<open>AssertionError\<close>, the spec's PrematureEvaluationError) and returns
  no value. A freshly constructed object is in that state.
\<close>

theorem objective_latency_before_placement:
  "edge_servers self = None \<Longrightarrow> objective_latency calc self = Inl AssertionError"
  by (simp add: objective_latency_def)

theorem objective_latency_before_placement_witness:
  "edge_servers (ServerPlacement_init [station_0, station_1] [[0, 1], [1, 0]]) = None
   \<and> objective_latency grid_distance (ServerPlacement_init [station_0, station_1] [[0, 1], [1, 0]])
       = Inl AssertionError"
proof -
  have h: "edge_servers (ServerPlacement_init [station_0, station_1] [[0, 1], [1, 0]]) = None"
    by (simp add: ServerPlacement_init_def)
  from h objective_latency_before_placement [OF h, of grid_distance] show ?thesis
    by simp
qed

subsection \<open>What \<open>place_server\<close> leaves alone\<close>

text \<open>
  Claim C10: for every strategy, a run of \<open>place_server\<close> that returns leaves
  \<open>self.base_stations\<close> and \<open>self.distances\<close> as they were; the object after the call is
  the object before it with \<open>edge_servers\<close> replaced. (A run that raises stores nothing:
  the only assignment to an attribute is the last statement of each \<open>place_server\<close>.)
\<close>

theorem place_server_frame:
  "place_server calc s self k = Inr self' \<Longrightarrow>
     base_stations self' = base_stations self \<and> distances self' = distances self
     \<and> self' = self\<lparr>edge_servers := edge_servers self'\<rparr>"
  by (cases s)
     (auto simp: KMeans_place_server_def TopK_place_server_def Random_place_server_def Let_def
           split: sum.splits option.splits prod.splits)

theorem place_server_frame_witness:
  "place_server grid_distance (RandomServerPlacement [3, 0]) four_corners 2 =
     Inr (four_corners\<lparr>edge_servers := Some
       [\<lparr>es_id = 0, latitude = 1, longitude = 1, base_station_id = Some 3,
         assigned_base_stations = [corner 1 0 1, corner 2 1 0, corner 3 1 1], workload = 3\<rparr>,
        \<lparr>es_id = 1, latitude = 0, longitude = 0, base_station_id = Some 0,
         assigned_base_stations = [corner 0 0 0], workload = 1\<rparr>]\<rparr>)
   \<and> base_stations (four_corners\<lparr>edge_servers := Some
       [\<lparr>es_id = 0, latitude = 1, longitude = 1, base_station_id = Some 3,
         assigned_base_stations = [corner 1 0 1, corner 2 1 0, corner 3 1 1], workload = 3\<rparr>,
        \<lparr>es_id = 1, latitude = 0, longitude = 0, base_station_id = Some 0,
         assigned_base_stations = [corner 0 0 0], workload = 1\<rparr>]\<rparr>) = base_stations four_corners
   \<and> distances (four_corners\<lparr>edge_servers := Some
       [\<lparr>es_id = 0, latitude = 1, longitude = 1, base_station_id = Some 3,
         assigned_base_stations = [corner 1 0 1, corner 2 1 0, corner 3 1 1], workload = 3\<rparr>,
        \<lparr>es_id = 1, latitude = 0, longitude = 0, base_station_id = Some 0,
         assigned_base_stations = [corner 0 0 0], workload = 1\<rparr>]\<rparr>) = distances four_corners"
proof -
  have run: "place_server grid_distance (RandomServerPlacement [3, 0]) four_corners 2 =
     Inr (four_corners\<lparr>edge_servers := Some
       [\<lparr>es_id = 0, latitude = 1, longitude = 1, base_station_id = Some 3,
         assigned_base_stations = [corner 1 0 1, corner 2 1 0, corner 3 1 1], workload = 3\<rparr>,
        \<lparr>es_id = 1, latitude = 0, longitude = 0, base_station_id = Some 0,
         assigned_base_stations = [corner 0 0 0], workload = 1\<rparr>]\<rparr>)"
    by (simp add: example_defs run_defs)
  from run place_server_frame [OF run] show ?thesis
    by blast
qed

subsection \<open>Every base station is assigned once\<close>

text \<open>
  Claim C1, as the code has it. After a run of \<open>place_server\<close> that returns:
  \<^item> for \<open>TopKServerPlacement\<close> and \<open>RandomServerPlacement\<close>, whatever
    \<open>edge_server_num\<close> was, the lists \<open>assigned_base_stations\<close> of the edge servers stored,
    taken together, hold the base stations of the input, each as often as the input does;
    with pairwise different base stations, every base station is in the list of exactly
    one edge server;
  \<^item> for \<open>KMeansServerPlacement\<close>, the clustering having returned \<open>centroid\<close> and one
    label per base station, the clusters (the base stations of label \<open>0\<close>, of label \<open>1\<close>,
    and so on) hold every base station once, and the lists of the edge servers stored are
    the clusters whose accumulated workload is not zero, in their order: a base station of
    such a cluster is in exactly one list, a base station of a cluster whose accumulated
    workload is zero is in none;
  \<^item> so for \<open>KMeansServerPlacement\<close> the lists hold every base station exactly once
    when no cluster that holds a base station has the accumulated workload zero.
\<close>

theorem every_base_station_assigned_once:
  assumes run: "place_server calc s self k = Inr self'"
    and no_mip: "\<not> is_MIP s"
    and km: "is_KMeans s \<longrightarrow>
       the_kmeans2 s (map (\<lambda>x. (bs_latitude x, bs_longitude x)) (base_stations self)) k
         = Inr (centroid, label)
       \<and> length label = length (base_stations self)"
  shows "\<exists>ess. edge_servers self' = Some ess
     \<and> (is_KMeans s \<longrightarrow>
          map assigned_base_stations ess =
            filter (\<lambda>c. accumulated c \<noteq> 0)
              (map (cluster (base_stations self) label) [0..<length centroid])
          \<and> mset (concat (map (cluster (base_stations self) label) [0..<length centroid]))
              = mset (base_stations self)
          \<and> (distinct (base_stations self) \<longrightarrow>
               (\<forall>j<length centroid. \<forall>b\<in>set (cluster (base_stations self) label j).
                  (accumulated (cluster (base_stations self) label j) \<noteq> 0 \<longrightarrow>
                     (\<exists>!i. i < length ess \<and> b \<in> set (assigned_base_stations (ess ! i))))
                \<and> (accumulated (cluster (base_stations self) label j) = 0 \<longrightarrow>
                     (\<forall>i<length ess. b \<notin> set (assigned_base_stations (ess ! i)))))))
     \<and> ((is_KMeans s \<longrightarrow>
            list_all (\<lambda>j. cluster (base_stations self) label j = []
                            \<or> accumulated (cluster (base_stations self) label j) \<noteq> 0)
              [0..<length centroid])
         \<longrightarrow> mset (concat (map assigned_base_stations ess)) = mset (base_stations self)
           \<and> (distinct (base_stations self) \<longrightarrow>
                (\<forall>b\<in>set (base_stations self).
                   \<exists>!j. j < length ess \<and> b \<in> set (assigned_base_stations (ess ! j)))))"
proof (cases s)
  case (MIPServerPlacement x)
  with no_mip show ?thesis by simp
next
  case TopKServerPlacement
  with run TopK_placement [of calc self k self'] obtain ess where
    ess: "edge_servers self' = Some ess"
    and m: "mset (concat (map assigned_base_stations ess)) = mset (base_stations self)"
    by auto
  from m have "distinct (base_stations self) \<longrightarrow>
                (\<forall>b\<in>set (base_stations self).
                   \<exists>!j. j < length ess \<and> b \<in> set (assigned_base_stations (ess ! j)))"
    by (intro impI ballI exactly_one_of_placement)
  with ess m TopKServerPlacement show ?thesis
    by simp
next
  case (RandomServerPlacement picks)
  with run Random_placement [of picks calc self k self'] obtain ess where
    ess: "edge_servers self' = Some ess"
    and m: "mset (concat (map assigned_base_stations ess)) = mset (base_stations self)"
    by auto
  from m have "distinct (base_stations self) \<longrightarrow>
                (\<forall>b\<in>set (base_stations self).
                   \<exists>!j. j < length ess \<and> b \<in> set (assigned_base_stations (ess ! j)))"
    by (intro impI ballI exactly_one_of_placement)
  with ess m RandomServerPlacement show ?thesis
    by simp
next
  case (KMeansServerPlacement kmeans2)
  let ?clusters = "map (cluster (base_stations self) label) [0..<length centroid]"
  from run KMeansServerPlacement have run': "KMeans_place_server kmeans2 self k = Inr self'"
    by simp
  from km KMeansServerPlacement have
    answer: "kmeans2 (map (\<lambda>x. (bs_latitude x, bs_longitude x)) (base_stations self)) k
         = Inr (centroid, label)"
    and len: "length label = length (base_stations self)"
    by simp_all
  from KMeans_clusters [OF run' answer len] obtain ess where
    ess: "edge_servers self' = Some ess"
    and kept: "map assigned_base_stations ess = filter (\<lambda>c. accumulated c \<noteq> 0) ?clusters"
    and part: "mset (concat ?clusters) = mset (base_stations self)"
    by blast
  have third: "mset (concat (map assigned_base_stations ess)) = mset (base_stations self)
           \<and> (distinct (base_stations self) \<longrightarrow>
                (\<forall>b\<in>set (base_stations self).
                   \<exists>!j. j < length ess \<and> b \<in> set (assigned_base_stations (ess ! j))))"
    if cond: "list_all (\<lambda>j. cluster (base_stations self) label j = []
                            \<or> accumulated (cluster (base_stations self) label j) \<noteq> 0)
              [0..<length centroid]"
  proof -
    from cond have "\<forall>c\<in>set ?clusters. c = [] \<or> accumulated c \<noteq> 0"
      by (auto simp: list_all_iff)
    then have "concat (filter (\<lambda>c. accumulated c \<noteq> 0) ?clusters) = concat ?clusters"
      by (rule concat_filter_nonempty)
    with kept part
    have m: "mset (concat (map assigned_base_stations ess)) = mset (base_stations self)"
      by simp
    then have "distinct (base_stations self) \<longrightarrow>
                (\<forall>b\<in>set (base_stations self).
                   \<exists>!j. j < length ess \<and> b \<in> set (assigned_base_stations (ess ! j)))"
      by (intro impI ballI exactly_one_of_placement)
    with m show ?thesis ..
  qed
  have fate: "\<forall>j<length centroid. \<forall>b\<in>set (cluster (base_stations self) label j).
                  (accumulated (cluster (base_stations self) label j) \<noteq> 0 \<longrightarrow>
                     (\<exists>!i. i < length ess \<and> b \<in> set (assigned_base_stations (ess ! i))))
                \<and> (accumulated (cluster (base_stations self) label j) = 0 \<longrightarrow>
                     (\<forall>i<length ess. b \<notin> set (assigned_base_stations (ess ! i))))"
    if d: "distinct (base_stations self)"
  proof (intro allI impI ballI)
    fix j b
    assume j: "j < length centroid" and b: "b \<in> set (cluster (base_stations self) label j)"
    let ?kept = "filter (\<lambda>c. accumulated c \<noteq> 0) ?clusters"
    from part d have dc: "distinct (concat ?clusters)"
      using mset_eq_imp_distinct_iff by blast
    from j have cj: "?clusters ! j = cluster (base_stations self) label j"
      and jl: "j < length ?clusters"
      by simp_all
    from kept have "length (map assigned_base_stations ess) = length ?kept"
      by (rule arg_cong)
    then have len_ess: "length ess = length ?kept"
      by simp
    have nth_ess: "assigned_base_stations (ess ! i) = ?kept ! i" if "i < length ess" for i
    proof -
      from that have "assigned_base_stations (ess ! i) = map assigned_base_stations ess ! i"
        by simp
      with kept show ?thesis
        by simp
    qed
    from b cj have b': "b \<in> set (?clusters ! j)"
      by simp
    note fate = kept_or_dropped [OF dc jl b', of "\<lambda>c. accumulated c \<noteq> 0"]
    have one: "\<exists>!i. i < length ess \<and> b \<in> set (assigned_base_stations (ess ! i))"
      if nz: "accumulated (cluster (base_stations self) label j) \<noteq> 0"
    proof -
      from fate nz cj have "\<exists>!i. i < length ?kept \<and> b \<in> set (?kept ! i)"
        by simp
      moreover have "i < length ?kept \<and> b \<in> set (?kept ! i)
          \<longleftrightarrow> i < length ess \<and> b \<in> set (assigned_base_stations (ess ! i))" for i
        using len_ess nth_ess by auto
      ultimately show ?thesis
        by simp
    qed
    have none: "\<forall>i<length ess. b \<notin> set (assigned_base_stations (ess ! i))"
      if z: "accumulated (cluster (base_stations self) label j) = 0"
    proof (intro allI impI)
      fix i assume i: "i < length ess"
      from fate z cj have "\<forall>i<length ?kept. b \<notin> set (?kept ! i)"
        by simp
      with i len_ess nth_ess show "b \<notin> set (assigned_base_stations (ess ! i))"
        by simp
    qed
    from one none
    show "(accumulated (cluster (base_stations self) label j) \<noteq> 0 \<longrightarrow>
                     (\<exists>!i. i < length ess \<and> b \<in> set (assigned_base_stations (ess ! i))))
                \<and> (accumulated (cluster (base_stations self) label j) = 0 \<longrightarrow>
                     (\<forall>i<length ess. b \<notin> set (assigned_base_stations (ess ! i))))"
      by blast
  qed
  have first: "is_KMeans s \<longrightarrow>
          map assigned_base_stations ess = filter (\<lambda>c. accumulated c \<noteq> 0) ?clusters
          \<and> mset (concat ?clusters) = mset (base_stations self)
          \<and> (distinct (base_stations self) \<longrightarrow>
               (\<forall>j<length centroid. \<forall>b\<in>set (cluster (base_stations self) label j).
                  (accumulated (cluster (base_stations self) label j) \<noteq> 0 \<longrightarrow>
                     (\<exists>!i. i < length ess \<and> b \<in> set (assigned_base_stations (ess ! i))))
                \<and> (accumulated (cluster (base_stations self) label j) = 0 \<longrightarrow>
                     (\<forall>i<length ess. b \<notin> set (assigned_base_stations (ess ! i))))))"
    using kept part fate by blast
  have second: "(is_KMeans s \<longrightarrow>
            list_all (\<lambda>j. cluster (base_stations self) label j = []
                            \<or> accumulated (cluster (base_stations self) label j) \<noteq> 0)
              [0..<length centroid])
         \<longrightarrow> mset (concat (map assigned_base_stations ess)) = mset (base_stations self)
           \<and> (distinct (base_stations self) \<longrightarrow>
                (\<forall>b\<in>set (base_stations self).
                   \<exists>!j. j < length ess \<and> b \<in> set (assigned_base_stations (ess ! j))))"
    using KMeansServerPlacement third by simp
  show ?thesis
    by (rule exI [of _ ess], intro conjI) (rule ess first second)+
qed

theorem every_base_station_assigned_once_witness:
  "\<exists>self'. place_server grid_distance (KMeansServerPlacement all_in_one) two_stations 1
              = Inr self'
     \<and> \<not> is_MIP (KMeansServerPlacement all_in_one)
     \<and> the_kmeans2 (KMeansServerPlacement all_in_one)
           (map (\<lambda>x. (bs_latitude x, bs_longitude x)) (base_stations two_stations)) 1
         = Inr ([(0, 1 / 2)], [0, 0])
     \<and> length [0 :: nat, 0] = length (base_stations two_stations)
     \<and> list_all (\<lambda>j. cluster (base_stations two_stations) [0, 0] j = []
                       \<or> accumulated (cluster (base_stations two_stations) [0, 0] j) \<noteq> 0)
           [0..<length [(0 :: real, 1 / 2 :: real)]]
     \<and> distinct (base_stations two_stations)
     \<and> (\<exists>ess. edge_servers self' = Some ess
          \<and> map assigned_base_stations ess = [[station_0, station_1]]
          \<and> mset (concat (map assigned_base_stations ess)) = mset (base_stations two_stations)
          \<and> list_all (\<lambda>b. \<exists>!j. j < length ess \<and> b \<in> set (assigned_base_stations (ess ! j)))
                (base_stations two_stations))"
proof -
  have "\<exists>self'. place_server grid_distance (KMeansServerPlacement all_in_one) two_stations 1
              = Inr self'"
    by (simp add: example_defs all_in_one_def run_defs)
  then obtain self' where
    run: "place_server grid_distance (KMeansServerPlacement all_in_one) two_stations 1 = Inr self'"
    by blast
  have no_mip: "\<not> is_MIP (KMeansServerPlacement all_in_one)"
    by simp
  have answer: "the_kmeans2 (KMeansServerPlacement all_in_one)
           (map (\<lambda>x. (bs_latitude x, bs_longitude x)) (base_stations two_stations)) 1
         = Inr ([(0, 1 / 2)], [0, 0])"
    by (simp add: example_defs all_in_one_def)
  have len: "length [0 :: nat, 0] = length (base_stations two_stations)"
    by (simp add: example_defs)
  have clusters: "map (cluster (base_stations two_stations) [0, 0])
      [0..<length [(0 :: real, 1 / 2 :: real)]] = [[station_0, station_1]]"
    by (simp add: example_defs cluster_def)
  have acc: "accumulated [station_0, station_1] = 5"
    by (simp add: accumulated_def example_defs)
  have cond: "list_all (\<lambda>j. cluster (base_stations two_stations) [0, 0] j = []
                       \<or> accumulated (cluster (base_stations two_stations) [0, 0] j) \<noteq> 0)
           [0..<length [(0 :: real, 1 / 2 :: real)]]"
    by (simp add: example_defs cluster_def accumulated_def)
  have dist: "distinct (base_stations two_stations)"
    by (simp add: example_defs)
  from every_base_station_assigned_once [OF run no_mip, of "[(0, 1 / 2)]" "[0, 0]"]
    answer len
  obtain ess where ess: "edge_servers self' = Some ess"
    and kept0: "is_KMeans (KMeansServerPlacement all_in_one) \<longrightarrow>
        map assigned_base_stations ess =
            filter (\<lambda>c. accumulated c \<noteq> 0)
              (map (cluster (base_stations two_stations) [0, 0])
                 [0..<length [(0 :: real, 1 / 2 :: real)]])
        \<and> mset (concat (map (cluster (base_stations two_stations) [0, 0])
                 [0..<length [(0 :: real, 1 / 2 :: real)]])) = mset (base_stations two_stations)"
    and once0: "(is_KMeans (KMeansServerPlacement all_in_one) \<longrightarrow>
            list_all (\<lambda>j. cluster (base_stations two_stations) [0, 0] j = []
                       \<or> accumulated (cluster (base_stations two_stations) [0, 0] j) \<noteq> 0)
              [0..<length [(0 :: real, 1 / 2 :: real)]])
         \<longrightarrow> mset (concat (map assigned_base_stations ess)) = mset (base_stations two_stations)
           \<and> (distinct (base_stations two_stations) \<longrightarrow>
                (\<forall>b\<in>set (base_stations two_stations).
                   \<exists>!j. j < length ess \<and> b \<in> set (assigned_base_stations (ess ! j))))"
    by blast
  from kept0 have "map assigned_base_stations ess =
            filter (\<lambda>c. accumulated c \<noteq> 0)
              (map (cluster (base_stations two_stations) [0, 0])
                 [0..<length [(0 :: real, 1 / 2 :: real)]])"
    by simp
  then have kept: "map assigned_base_stations ess = [[station_0, station_1]]"
    unfolding clusters by (simp add: acc)
  from once0 cond have m: "mset (concat (map assigned_base_stations ess))
      = mset (base_stations two_stations)"
    and once1: "distinct (base_stations two_stations) \<longrightarrow>
                (\<forall>b\<in>set (base_stations two_stations).
                   \<exists>!j. j < length ess \<and> b \<in> set (assigned_base_stations (ess ! j)))"
    by blast+
  from once1 dist have "\<forall>b\<in>set (base_stations two_stations).
                   \<exists>!j. j < length ess \<and> b \<in> set (assigned_base_stations (ess ! j))"
    by (rule mp)
  then have once: "list_all (\<lambda>b. \<exists>!j. j < length ess \<and> b \<in> set (assigned_base_stations (ess ! j)))
                (base_stations two_stations)"
    by (simp only: list_all_iff)
  have inner: "\<exists>ess. edge_servers self' = Some ess
          \<and> map assigned_base_stations ess = [[station_0, station_1]]
          \<and> mset (concat (map assigned_base_stations ess)) = mset (base_stations two_stations)
          \<and> list_all (\<lambda>b. \<exists>!j. j < length ess \<and> b \<in> set (assigned_base_stations (ess ! j)))
                (base_stations two_stations)"
    by (rule exI [of _ ess], intro conjI) (rule ess kept m once)+
  show ?thesis
    by (rule exI [of _ self'], intro conjI) (rule run no_mip answer len cond dist inner)+
qed

text \<open>The claim as stated fails for k-means: with two base stations, the second of
  workload zero, and two clusters of one base station each, the edge server of the second
  cluster has workload zero and is filtered out, and the second base station is in no
  list of the placement stored.\<close>

theorem every_base_station_assigned_once_counterexample:
  "place_server grid_distance (KMeansServerPlacement each_its_own) two_stations 2 =
     Inr (two_stations\<lparr>edge_servers := Some
       [\<lparr>es_id = 0, latitude = 0, longitude = 0, base_station_id = None,
         assigned_base_stations = [station_0], workload = 5\<rparr>]\<rparr>)"
  by (simp add: example_defs run_defs)

subsection \<open>The seeds of Top-K\<close>



subsection \<open>The number of edge servers asked for\<close>

text \<open>
  Claim C3, as the code has it. Neither \<open>place_server\<close> checks \<open>edge_server_num\<close>;
  what happens follows from \<open>random.sample\<close>, from the slice
  \<open>sorted_base_stations[:edge_server_num]\<close> and from the assignment loop. With \<open>N\<close> the
  number of base stations and \<open>srt\<close> the base stations sorted by workload:
  \<^item> Random raises (\<open>ValueError\<close>, from \<open>random.sample\<close>) when \<open>edge_server_num\<close> is
    negative or larger than \<open>N\<close>;
  \<^item> Random raises when \<open>edge_server_num\<close> is \<open>0\<close> and there is a base station, and
    Top-K raises when there is a base station and the slice is empty,
    \<open>edge_server_num = 0\<close> or \<open>edge_server_num \<le> -N\<close>: there is no edge server to
    assign to;
  \<^item> Random returns, with \<open>edge_server_num\<close> edge servers seeded at the sampled base
    stations, when \<open>1 \<le> edge_server_num \<le> N\<close> and every round of the loop can be
    completed: for every base station, the distance of every seeded edge server is found
    and one of them is below \<open>1e10\<close>;
  \<^item> Top-K seeds the first \<open>n\<close> base stations of \<open>srt\<close>, where \<open>n\<close> is
    \<open>edge_server_num\<close> when that is not negative and \<open>N + edge_server_num\<close> (or \<open>0\<close>)
    when it is: all \<open>N\<close> base stations for a count beyond \<open>N\<close>, and the first
    \<open>N + edge_server_num\<close> for \<open>-N < edge_server_num < 0\<close>. It returns when every round
    can be completed for these seeds, and whenever it returns the edge servers stored are
    these seeds, \<open>min n N\<close> of them.
\<close>

theorem server_count_handling:
  fixes self :: server_placement and k :: int
  defines "bss \<equiv> base_stations self"
  defines "srt \<equiv> py_sorted_reverse bs_workload (base_stations self)"
  defines "n \<equiv> (if 0 \<le> k then nat k else length (base_stations self) - nat (- k))"
  shows
   "(k < 0 \<or> int (length bss) < k \<longrightarrow>
       place_server calc (RandomServerPlacement picks) self k = Inl ValueError)
    \<and> (bss \<noteq> [] \<and> valid_picks picks (length bss) 0 \<longrightarrow>
       place_server calc (RandomServerPlacement picks) self 0 = Inl AttributeError)
    \<and> (bss \<noteq> [] \<and> (k = 0 \<or> k \<le> - int (length bss)) \<longrightarrow>
       place_server calc TopKServerPlacement self k = Inl AttributeError)
    \<and> (1 \<le> k \<and> k \<le> int (length bss) \<and> valid_picks picks (length bss) k
        \<and> assignable calc self (seed_edge_servers (map (\<lambda>i. bss ! i) picks)) bss \<longrightarrow>
       (\<exists>self' ess.
           place_server calc (RandomServerPlacement picks) self k = Inr self'
         \<and> edge_servers self' = Some ess \<and> int (length ess) = k
         \<and> map (\<lambda>e. (es_id e, latitude e, longitude e, base_station_id e)) ess =
             map (\<lambda>(i, b). (int i, bs_latitude b, bs_longitude b, Some (bs_id b)))
               (enumerate 0 (map (\<lambda>i. bss ! i) picks))))
    \<and> (assignable calc self (seed_edge_servers (take n srt)) srt \<longrightarrow>
       (\<exists>self'. place_server calc TopKServerPlacement self k = Inr self'))
    \<and> (\<forall>self'. place_server calc TopKServerPlacement self k = Inr self' \<longrightarrow>
       (\<exists>ess. edge_servers self' = Some ess \<and> length ess = min n (length bss)
         \<and> map (\<lambda>e. (es_id e, latitude e, longitude e, base_station_id e)) ess =
             map (\<lambda>(i, b). (int i, bs_latitude b, bs_longitude b, Some (bs_id b)))
               (enumerate 0 (take n srt))))"
proof (intro conjI impI allI)
  assume "k < 0 \<or> int (length bss) < k"
  then show "place_server calc (RandomServerPlacement picks) self k = Inl ValueError"
    by (auto simp: Random_place_server_def random_sample_def bss_def)
next
  assume a: "bss \<noteq> [] \<and> valid_picks picks (length bss) 0"
  then have "picks = []"
    by (simp add: valid_picks_def)
  moreover from a obtain b rest where "base_stations self = b # rest"
    by (cases "base_stations self") (auto simp: bss_def)
  ultimately show "place_server calc (RandomServerPlacement picks) self 0 = Inl AttributeError"
    by (simp add: Random_place_server_def random_sample_def seed_edge_servers_def
          assign_base_station_def)
next
  assume a: "bss \<noteq> [] \<and> (k = 0 \<or> k \<le> - int (length bss))"
  have "length (py_sorted_reverse bs_workload (base_stations self)) = length (base_stations self)"
    by (simp add: py_sorted_reverse_def)
  with a have "py_slice_to (py_sorted_reverse bs_workload (base_stations self)) k = []"
    by (auto simp: py_slice_to_def bss_def)
  with a TopK_no_seed [of self k calc]
  show "place_server calc TopKServerPlacement self k = Inl AttributeError"
    by (simp add: bss_def)
next
  assume a: "1 \<le> k \<and> k \<le> int (length bss) \<and> valid_picks picks (length bss) k
        \<and> assignable calc self (seed_edge_servers (map (\<lambda>i. bss ! i) picks)) bss"
  define seeds where "seeds = map (\<lambda>i. bss ! i) picks"
  from a have sample: "random_sample picks (base_stations self) k = Inr seeds"
    by (simp add: random_sample_def seeds_def bss_def)
  from a have "assignable calc self (seed_edge_servers seeds) (base_stations self)"
    by (simp add: seeds_def bss_def)
  from assignable_returns [OF this] obtain ess where
    loop: "assign_all calc self (seed_edge_servers seeds) (base_stations self) = Inr ess"
    by blast
  from assign_all_seeds [OF loop]
  have fields: "map (\<lambda>e. (es_id e, latitude e, longitude e, base_station_id e)) ess =
             map (\<lambda>(i, b). (int i, bs_latitude b, bs_longitude b, Some (bs_id b)))
               (enumerate 0 seeds)"
    by (simp only: seed_edge_servers_fields)
  then have "length (map (\<lambda>e. (es_id e, latitude e, longitude e, base_station_id e)) ess) =
      length (map (\<lambda>(i, b). (int i, bs_latitude b, bs_longitude b, Some (bs_id b)))
               (enumerate 0 seeds))"
    by (rule arg_cong)
  then have "length ess = length picks"
    by (simp add: seeds_def)
  with a have len: "int (length ess) = k"
    by (simp add: valid_picks_def)
  have "place_server calc (RandomServerPlacement picks) self k
      = Inr (self\<lparr>edge_servers := Some ess\<rparr>)"
    using sample loop by (simp add: Random_place_server_def)
  with fields len show "\<exists>self' ess.
           place_server calc (RandomServerPlacement picks) self k = Inr self'
         \<and> edge_servers self' = Some ess \<and> int (length ess) = k
         \<and> map (\<lambda>e. (es_id e, latitude e, longitude e, base_station_id e)) ess =
             map (\<lambda>(i, b). (int i, bs_latitude b, bs_longitude b, Some (bs_id b)))
               (enumerate 0 (map (\<lambda>i. bss ! i) picks))"
    unfolding seeds_def
    by (intro exI [of _ "self\<lparr>edge_servers := Some ess\<rparr>"] exI [of _ ess]) simp
next
  assume "assignable calc self (seed_edge_servers (take n srt)) srt"
  then have "assignable calc self
      (seed_edge_servers (py_slice_to (py_sorted_reverse bs_workload (base_stations self)) k))
      (py_sorted_reverse bs_workload (base_stations self))"
    by (simp only: py_slice_to_sorted n_def srt_def)
  from assignable_returns [OF this]
  show "\<exists>self'. place_server calc TopKServerPlacement self k = Inr self'"
    by (auto simp: TopK_place_server_def Let_def)
next
  fix self'
  assume "place_server calc TopKServerPlacement self k = Inr self'"
  then have "TopK_place_server calc self k = Inr self'"
    by simp
  from TopK_placement [OF this] obtain ess where ess: "edge_servers self' = Some ess"
    and seeds: "map (\<lambda>e. (es_id e, latitude e, longitude e, base_station_id e)) ess =
         map (\<lambda>e. (es_id e, latitude e, longitude e, base_station_id e))
           (seed_edge_servers (py_slice_to (py_sorted_reverse bs_workload (base_stations self)) k))"
    by blast
  from seeds have fields: "map (\<lambda>e. (es_id e, latitude e, longitude e, base_station_id e)) ess =
             map (\<lambda>(i, b). (int i, bs_latitude b, bs_longitude b, Some (bs_id b)))
               (enumerate 0 (take n srt))"
    by (simp only: seed_edge_servers_fields py_slice_to_sorted n_def srt_def)
  then have "length (map (\<lambda>e. (es_id e, latitude e, longitude e, base_station_id e)) ess) =
      length (map (\<lambda>(i, b). (int i, bs_latitude b, bs_longitude b, Some (bs_id b)))
               (enumerate 0 (take n srt)))"
    by (rule arg_cong)
  then have "length ess = min n (length bss)"
    by (simp add: srt_def bss_def py_sorted_reverse_def min.commute)
  with ess fields show "\<exists>ess. edge_servers self' = Some ess \<and> length ess = min n (length bss)
         \<and> map (\<lambda>e. (es_id e, latitude e, longitude e, base_station_id e)) ess =
             map (\<lambda>(i, b). (int i, bs_latitude b, bs_longitude b, Some (bs_id b)))
               (enumerate 0 (take n srt))"
    by blast
qed


theorem server_count_handling_witness:
  "int (length (base_stations four_corners)) < 5
   \<and> place_server grid_distance (RandomServerPlacement [3, 0]) four_corners 5 = Inl ValueError
   \<and> base_stations four_corners \<noteq> []
   \<and> valid_picks [] (length (base_stations four_corners)) 0
   \<and> place_server grid_distance (RandomServerPlacement []) four_corners 0 = Inl AttributeError
   \<and> place_server grid_distance TopKServerPlacement four_corners 0 = Inl AttributeError
   \<and> valid_picks [3, 0] (length (base_stations four_corners)) 2
   \<and> assignable grid_distance four_corners
        (seed_edge_servers (map (\<lambda>i. base_stations four_corners ! i) [3, 0]))
        (base_stations four_corners)
   \<and> (\<exists>self' ess.
         place_server grid_distance (RandomServerPlacement [3, 0]) four_corners 2 = Inr self'
         \<and> edge_servers self' = Some ess \<and> int (length ess) = 2)
   \<and> assignable grid_distance four_corners
        (seed_edge_servers (take 5 (py_sorted_reverse bs_workload (base_stations four_corners))))
        (py_sorted_reverse bs_workload (base_stations four_corners))
   \<and> (\<exists>self' ess. place_server grid_distance TopKServerPlacement four_corners 5 = Inr self'
         \<and> edge_servers self' = Some ess \<and> length ess = 4)
   \<and> assignable grid_distance two_stations_far
        (seed_edge_servers (take 1 (py_sorted_reverse bs_workload (base_stations two_stations_far))))
        (py_sorted_reverse bs_workload (base_stations two_stations_far))
   \<and> (\<exists>self' ess. place_server grid_distance TopKServerPlacement two_stations_far 1 = Inr self'
         \<and> edge_servers self' = Some ess \<and> length ess = 1)"
proof -
  note at_5 = server_count_handling
    [where k = 5 and self = four_corners and calc = grid_distance and picks = "[3, 0]"]
  note at_0 = server_count_handling
    [where k = 0 and self = four_corners and calc = grid_distance and picks = "[]"]
  note at_2 = server_count_handling
    [where k = 2 and self = four_corners and calc = grid_distance and picks = "[3, 0]"]
  note far_1 = server_count_handling
    [where k = 1 and self = two_stations_far and calc = grid_distance and picks = "[]"]
  have len: "int (length (base_stations four_corners)) < 5"
    and ne: "base_stations four_corners \<noteq> []"
    by (simp_all add: four_corners_def ServerPlacement_init_def)
  have none: "valid_picks [] (length (base_stations four_corners)) 0"
    and two: "valid_picks [3, 0] (length (base_stations four_corners)) 2"
    by (simp_all add: valid_picks_def four_corners_def ServerPlacement_init_def)
  have a: "place_server grid_distance (RandomServerPlacement [3, 0]) four_corners 5
      = Inl ValueError"
    by (rule mp [OF at_5 [THEN conjunct1]]) (rule disjI2, rule len)
  have b: "place_server grid_distance (RandomServerPlacement []) four_corners 0
      = Inl AttributeError"
    by (rule mp [OF at_0 [THEN conjunct2, THEN conjunct1]]) (simp add: ne none)
  have c: "place_server grid_distance TopKServerPlacement four_corners 0 = Inl AttributeError"
    by (rule mp [OF at_0 [THEN conjunct2, THEN conjunct2, THEN conjunct1]]) (simp add: ne)
  have can_2: "assignable grid_distance four_corners
        (seed_edge_servers (map (\<lambda>i. base_stations four_corners ! i) [3, 0]))
        (base_stations four_corners)"
    by (simp add: assignable_def round_possible_def example_defs run_defs)
  have "1 \<le> (2::int) \<and> 2 \<le> int (length (base_stations four_corners))
        \<and> valid_picks [3, 0] (length (base_stations four_corners)) 2
        \<and> assignable grid_distance four_corners
            (seed_edge_servers (map (\<lambda>i. base_stations four_corners ! i) [3, 0]))
            (base_stations four_corners)"
    using two can_2 by (simp add: four_corners_def ServerPlacement_init_def)
  from mp [OF at_2 [THEN conjunct2, THEN conjunct2, THEN conjunct2, THEN conjunct1] this]
  have d: "\<exists>self' ess.
         place_server grid_distance (RandomServerPlacement [3, 0]) four_corners 2 = Inr self'
         \<and> edge_servers self' = Some ess \<and> int (length ess) = 2"
    by blast
  have can_5: "assignable grid_distance four_corners
        (seed_edge_servers (take 5 (py_sorted_reverse bs_workload (base_stations four_corners))))
        (py_sorted_reverse bs_workload (base_stations four_corners))"
    by (simp add: assignable_def round_possible_def example_defs run_defs)
  then have "assignable grid_distance four_corners
        (seed_edge_servers (take (if 0 \<le> (5::int) then nat 5
             else length (base_stations four_corners) - nat (- 5))
           (py_sorted_reverse bs_workload (base_stations four_corners))))
        (py_sorted_reverse bs_workload (base_stations four_corners))"
    by simp
  from mp [OF at_5 [THEN conjunct2, THEN conjunct2, THEN conjunct2, THEN conjunct2,
      THEN conjunct1] this]
  obtain s5 where run_5: "place_server grid_distance TopKServerPlacement four_corners 5 = Inr s5"
    by blast
  from at_5 [THEN conjunct2, THEN conjunct2, THEN conjunct2, THEN conjunct2, THEN conjunct2,
      THEN spec, THEN mp, OF run_5]
  obtain ess5 where "edge_servers s5 = Some ess5"
    and "length ess5 = min (if 0 \<le> (5::int) then nat 5
             else length (base_stations four_corners) - nat (- 5))
           (length (base_stations four_corners))"
    by blast
  then have "edge_servers s5 = Some ess5 \<and> length ess5 = 4"
    by (simp add: four_corners_def ServerPlacement_init_def)
  with run_5 have e: "\<exists>self' ess.
      place_server grid_distance TopKServerPlacement four_corners 5 = Inr self'
         \<and> edge_servers self' = Some ess \<and> length ess = 4"
    by blast
  have can_far: "assignable grid_distance two_stations_far
        (seed_edge_servers (take 1 (py_sorted_reverse bs_workload (base_stations two_stations_far))))
        (py_sorted_reverse bs_workload (base_stations two_stations_far))"
    by (simp add: assignable_def round_possible_def example_defs run_defs)
  then have "assignable grid_distance two_stations_far
        (seed_edge_servers (take (if 0 \<le> (1::int) then nat 1
             else length (base_stations two_stations_far) - nat (- 1))
           (py_sorted_reverse bs_workload (base_stations two_stations_far))))
        (py_sorted_reverse bs_workload (base_stations two_stations_far))"
    by simp
  from mp [OF far_1 [THEN conjunct2, THEN conjunct2, THEN conjunct2, THEN conjunct2,
      THEN conjunct1] this]
  obtain s1 where run_1:
    "place_server grid_distance TopKServerPlacement two_stations_far 1 = Inr s1"
    by blast
  from far_1 [THEN conjunct2, THEN conjunct2, THEN conjunct2, THEN conjunct2, THEN conjunct2,
      THEN spec, THEN mp, OF run_1]
  obtain ess1 where "edge_servers s1 = Some ess1"
    and "length ess1 = min (if 0 \<le> (1::int) then nat 1
             else length (base_stations two_stations_far) - nat (- 1))
           (length (base_stations two_stations_far))"
    by blast
  then have "edge_servers s1 = Some ess1 \<and> length ess1 = 1"
    by (simp add: two_stations_far_def ServerPlacement_init_def)
  with run_1 have f: "\<exists>self' ess.
      place_server grid_distance TopKServerPlacement two_stations_far 1 = Inr self'
         \<and> edge_servers self' = Some ess \<and> length ess = 1"
    by blast
  show ?thesis
    by (intro conjI) (rule len a ne none b c two can_2 d can_5 e can_far f)+
qed

text \<open>The claim as stated fails for Top-K: with two base stations and
  \<open>edge_server_num = 3\<close> the run returns a placement of two edge servers.\<close>

theorem server_count_handling_counterexample:
  "int (length (base_stations two_stations)) < 3
   \<and> place_server grid_distance TopKServerPlacement two_stations 3 =
     Inr (two_stations\<lparr>edge_servers := Some
       [\<lparr>es_id = 0, latitude = 0, longitude = 0, base_station_id = Some 0,
         assigned_base_stations = [station_0], workload = 5\<rparr>,
        \<lparr>es_id = 1, latitude = 0, longitude = 1, base_station_id = Some 1,
         assigned_base_stations = [station_1], workload = 0\<rparr>]\<rparr>)"
  by (simp add: example_defs run_defs)

end
